theory Spec2Isabelle
  imports Complex_Main
begin

section \<open>Python values, errors and the builtins the code calls\<close>

text \<open>
  The code under verification is \<^verbatim>\<open>botbuilder/ai/luis/luis_util.py\<close> (class
  \<^verbatim>\<open>LuisUtil\<close>) and \<^verbatim>\<open>botbuilder/ai/luis/recognizer_result.py\<close> (class
  \<^verbatim>\<open>RecognizerResult\<close>). Every exception the code can raise is a value: a function
  that may raise returns \<open>error + 'a\<close>, with \<open>Inl\<close> for the exception.
\<close>

datatype error =
  TypeError | ValueError | KeyError | AttributeError | IndexError | OverflowError

definition rbind :: "error + 'a \<Rightarrow> ('a \<Rightarrow> error + 'b) \<Rightarrow> error + 'b" where
  "rbind m f = (case m of Inl e \<Rightarrow> Inl e | Inr x \<Rightarrow> f x)"

text \<open>
  The payloads the provider attaches to an entity (\<^verbatim>\<open>additional_properties\<close>, typed
  \<^verbatim>\<open>Dict[str, object]\<close>) are decoded JSON: \<^verbatim>\<open>None\<close>, booleans, integers, floats,
  strings, lists and string-keyed dictionaries. A dictionary is an association list in
  insertion order. The type \<open>'f\<close> stands for Python's \<^verbatim>\<open>float\<close>; its arithmetic is
  not modelled.
\<close>

datatype 'f pyval =
  PNone
| PBool bool
| PInt int
| PFloat 'f
| PStr string
| PList "'f pyval list"
| PDict "(string \<times> 'f pyval) list"

type_synonym 'f pydict = "(string \<times> 'f pyval) list"

text \<open>
  What the interpreter does with a float, and how it prints a container, is taken as a
  parameter of the model:
  \<^item> \<open>float_of_literal s\<close>: the value of \<^verbatim>\<open>float(s)\<close> for a string that is a float literal;
  \<^item> \<open>float_of_int i\<close>: \<^verbatim>\<open>float(i)\<close>, \<open>None\<close> when it raises \<^verbatim>\<open>OverflowError\<close>;
  \<^item> \<open>float_truthy x\<close>: \<^verbatim>\<open>bool(x)\<close>;
  \<^item> \<open>str_other v\<close>: \<^verbatim>\<open>str(v)\<close> for a float, a list or a dictionary;
  \<^item> \<open>float_eq x y\<close>: \<^verbatim>\<open>x == y\<close> for two floats;
  \<^item> \<open>float_eq_int x i\<close>: \<^verbatim>\<open>x == i\<close> for a float and an integer (Python compares the exact
    values).
\<close>

record 'f builtins =
  float_of_literal :: "string \<Rightarrow> 'f"
  float_of_int :: "int \<Rightarrow> 'f option"
  float_truthy :: "'f \<Rightarrow> bool"
  str_other :: "'f pyval \<Rightarrow> string"
  float_eq :: "'f \<Rightarrow> 'f \<Rightarrow> bool"
  float_eq_int :: "'f \<Rightarrow> int \<Rightarrow> bool"

subsection \<open>Strings\<close>

text \<open>
  A \<open>char\<close> is a code point below 256. \<^verbatim>\<open>str.isspace\<close> holds of the characters 9 to 13,
  28 to 31, 32, 133 and 160.
\<close>

definition is_space :: "char \<Rightarrow> bool" where
  "is_space c = (of_char c \<in> {9, 10, 11, 12, 13, 28, 29, 30, 31, 32, 133, 160 :: nat})"

definition isspace :: "string \<Rightarrow> bool" where
  "isspace s = (s \<noteq> [] \<and> list_all is_space s)"

text \<open>
  \<^verbatim>\<open>int(s)\<close> and \<^verbatim>\<open>float(s)\<close> skip leading and trailing whitespace of their own: the
  characters 9 to 13 and 32, and 133 and 160 (which they first turn into a space). The
  separators 28 to 31 are not skipped: \<^verbatim>\<open>int('\x1c12')\<close> raises \<^verbatim>\<open>ValueError\<close>.
\<close>

definition is_number_space :: "char \<Rightarrow> bool" where
  "is_number_space c = (of_char c \<in> {9, 10, 11, 12, 13, 32, 133, 160 :: nat})"

definition strip :: "string \<Rightarrow> string" where
  "strip s = rev (dropWhile is_number_space (rev (dropWhile is_number_space s)))"

definition startswith :: "string \<Rightarrow> string \<Rightarrow> bool" where
  "startswith s p = (take (length p) s = p)"

definition endswith :: "string \<Rightarrow> string \<Rightarrow> bool" where
  "endswith s p = (length p \<le> length s \<and> drop (length s - length p) s = p)"

text \<open>\<^verbatim>\<open>s.replace(a, b)\<close> for single characters.\<close>

definition replace :: "string \<Rightarrow> char \<Rightarrow> char \<Rightarrow> string" where
  "replace s a b = map (\<lambda>c. if c = a then b else c) s"

text \<open>\<^verbatim>\<open>s.split(sep)[-1]\<close>: what follows the last separator, the whole string if none.\<close>

fun split_last :: "char \<Rightarrow> string \<Rightarrow> string" where
  "split_last sep [] = []"
| "split_last sep (c # cs) =
     (if sep \<in> set cs then split_last sep cs
      else if c = sep then cs else c # cs)"

subsection \<open>Integer and float literals\<close>

definition is_digit :: "char \<Rightarrow> bool" where
  "is_digit c = (48 \<le> (of_char c :: nat) \<and> (of_char c :: nat) \<le> 57)"

definition digit_val :: "char \<Rightarrow> int" where
  "digit_val c = int (of_char c) - 48"

text \<open>A digit part: digits, with single underscores allowed between two digits.\<close>

fun digitpart :: "string \<Rightarrow> bool" where
  "digitpart [] = False"
| "digitpart [c] = is_digit c"
| "digitpart (c # d # cs) =
     (is_digit c \<and> (if d = CHR ''_'' then digitpart cs else digitpart (d # cs)))"

definition digits_val :: "string \<Rightarrow> int" where
  "digits_val s = foldl (\<lambda>acc c. if c = CHR ''_'' then acc else 10 * acc + digit_val c) 0 s"

text \<open>\<^verbatim>\<open>int(s)\<close> in base 10; \<open>None\<close> is \<^verbatim>\<open>ValueError\<close>.\<close>

definition py_int :: "string \<Rightarrow> int option" where
  "py_int s =
     (case strip s of
        [] \<Rightarrow> None
      | c # cs \<Rightarrow>
          if c = CHR ''-'' then (if digitpart cs then Some (- digits_val cs) else None)
          else if c = CHR ''+'' then (if digitpart cs then Some (digits_val cs) else None)
          else if digitpart (c # cs) then Some (digits_val (c # cs)) else None)"

definition lower :: "string \<Rightarrow> string" where
  "lower s = map (\<lambda>c. if 65 \<le> (of_char c :: nat) \<and> (of_char c :: nat) \<le> 90
                        then char_of (of_char c + (32 :: nat)) else c) s"

definition unsigned :: "string \<Rightarrow> string" where
  "unsigned s = (case s of [] \<Rightarrow> [] | c # cs \<Rightarrow> if c = CHR ''-'' \<or> c = CHR ''+'' then cs else s)"

definition is_e :: "char \<Rightarrow> bool" where
  "is_e c = (c = CHR ''e'' \<or> c = CHR ''E'')"

text \<open>The point number before the exponent: \<^verbatim>\<open>[digitpart] "." digitpart | digitpart ["."]\<close>.\<close>

definition pointfloat :: "string \<Rightarrow> bool" where
  "pointfloat s =
     (let a = takeWhile (\<lambda>c. c \<noteq> CHR ''.'') s; b = dropWhile (\<lambda>c. c \<noteq> CHR ''.'') s
      in case b of
           [] \<Rightarrow> digitpart a
         | _ # after \<Rightarrow> (a = [] \<and> digitpart after) \<or> (digitpart a \<and> (after = [] \<or> digitpart after)))"

definition is_float_literal :: "string \<Rightarrow> bool" where
  "is_float_literal s =
     (let t = unsigned (strip s) in
      lower t \<in> {''inf'', ''infinity'', ''nan''} \<or>
      (let m = takeWhile (\<lambda>c. \<not> is_e c) t; x = dropWhile (\<lambda>c. \<not> is_e c) t
       in pointfloat m \<and> (case x of [] \<Rightarrow> True | _ # ex \<Rightarrow> digitpart (unsigned ex))))"

text \<open>\<^verbatim>\<open>float(s)\<close> for a string; \<open>None\<close> is \<^verbatim>\<open>ValueError\<close>.\<close>

definition py_float :: "'f builtins \<Rightarrow> string \<Rightarrow> 'f option" where
  "py_float B s = (if is_float_literal s then Some (float_of_literal B (strip s)) else None)"

text \<open>\<^verbatim>\<open>str(i)\<close> for an integer.\<close>

fun str_nat :: "nat \<Rightarrow> string" where
  "str_nat n = (if n < 10 then [char_of (48 + n)] else str_nat (n div 10) @ [char_of (48 + n mod 10)])"

declare str_nat.simps [simp del]

definition str_int :: "int \<Rightarrow> string" where
  "str_int i = (if i < 0 then CHR ''-'' # str_nat (nat (- i)) else str_nat (nat i))"

definition py_str :: "'f builtins \<Rightarrow> 'f pyval \<Rightarrow> string" where
  "py_str B v =
     (case v of
        PNone \<Rightarrow> ''None''
      | PBool b \<Rightarrow> (if b then ''True'' else ''False'')
      | PInt i \<Rightarrow> str_int i
      | PStr s \<Rightarrow> s
      | _ \<Rightarrow> str_other B v)"

subsection \<open>Truthiness, subscripts, attributes\<close>

definition truthy :: "'f builtins \<Rightarrow> 'f pyval \<Rightarrow> bool" where
  "truthy B v =
     (case v of
        PNone \<Rightarrow> False
      | PBool b \<Rightarrow> b
      | PInt i \<Rightarrow> i \<noteq> 0
      | PFloat x \<Rightarrow> float_truthy B x
      | PStr s \<Rightarrow> s \<noteq> []
      | PList xs \<Rightarrow> xs \<noteq> []
      | PDict d \<Rightarrow> d \<noteq> [])"

text \<open>\<^verbatim>\<open>v[key]\<close> with a string key: only a dictionary has one.\<close>

definition getitem :: "'f pyval \<Rightarrow> string \<Rightarrow> error + 'f pyval" where
  "getitem v key =
     (case v of
        PDict d \<Rightarrow> (case map_of d key of None \<Rightarrow> Inl KeyError | Some x \<Rightarrow> Inr x)
      | _ \<Rightarrow> Inl TypeError)"

text \<open>\<^verbatim>\<open>v[0]\<close>: the first element of a list or string; a string-keyed dictionary has no key 0.\<close>

definition getitem0 :: "'f pyval \<Rightarrow> error + 'f pyval" where
  "getitem0 v =
     (case v of
        PList xs \<Rightarrow> (case xs of [] \<Rightarrow> Inl IndexError | x # _ \<Rightarrow> Inr x)
      | PStr s \<Rightarrow> (case s of [] \<Rightarrow> Inl IndexError | c # _ \<Rightarrow> Inr (PStr [c]))
      | PDict d \<Rightarrow> Inl KeyError
      | _ \<Rightarrow> Inl TypeError)"

text \<open>\<^verbatim>\<open>v.get(key)\<close>: a dictionary method; any other decoded value has no \<^verbatim>\<open>get\<close>.\<close>

definition dict_get :: "'f pyval \<Rightarrow> string \<Rightarrow> error + 'f pyval" where
  "dict_get v key =
     (case v of
        PDict d \<Rightarrow> (case map_of d key of None \<Rightarrow> Inr PNone | Some x \<Rightarrow> Inr x)
      | _ \<Rightarrow> Inl AttributeError)"

text \<open>
  \<^verbatim>\<open>v.unit\<close>: attribute access. None of the decoded values (\<^verbatim>\<open>None\<close>, \<^verbatim>\<open>bool\<close>,
  \<^verbatim>\<open>int\<close>, \<^verbatim>\<open>float\<close>, \<^verbatim>\<open>str\<close>, \<^verbatim>\<open>list\<close>, \<^verbatim>\<open>dict\<close>) has an attribute of that
  name; a dictionary's keys are not attributes.
\<close>

definition getattr_unit :: "'f pyval \<Rightarrow> error + 'f pyval" where
  "getattr_unit v = Inl AttributeError"

text \<open>Iterating a value: a list's elements, a string's characters, a dictionary's keys.\<close>

definition iterate :: "'f pyval \<Rightarrow> error + 'f pyval list" where
  "iterate v =
     (case v of
        PList xs \<Rightarrow> Inr xs
      | PStr s \<Rightarrow> Inr (map (\<lambda>c. PStr [c]) s)
      | PDict d \<Rightarrow> Inr (map (\<lambda>kv. PStr (fst kv)) d)
      | _ \<Rightarrow> Inl TypeError)"

text \<open>\<^verbatim>\<open>float(v)\<close> on a decoded value.\<close>

definition py_float_of :: "'f builtins \<Rightarrow> 'f pyval \<Rightarrow> error + 'f" where
  "py_float_of B v =
     (case v of
        PFloat x \<Rightarrow> Inr x
      | PInt i \<Rightarrow> (case float_of_int B i of None \<Rightarrow> Inl OverflowError | Some x \<Rightarrow> Inr x)
      | PBool b \<Rightarrow> (case float_of_int B (if b then 1 else 0) of
                      None \<Rightarrow> Inl OverflowError | Some x \<Rightarrow> Inr x)
      | PStr s \<Rightarrow> (case py_float B s of None \<Rightarrow> Inl ValueError | Some x \<Rightarrow> Inr x)
      | _ \<Rightarrow> Inl TypeError)"

text \<open>\<^verbatim>\<open>d[key] = v\<close>: an existing key keeps its position.\<close>

fun dict_set :: "(string \<times> 'v) list \<Rightarrow> string \<Rightarrow> 'v \<Rightarrow> (string \<times> 'v) list" where
  "dict_set [] key v = [(key, v)]"
| "dict_set ((k, x) # d) key v = (if k = key then (k, v) # d else (k, x) # dict_set d key v)"

text \<open>
  \<^verbatim>\<open>a == b\<close> on decoded values. \<^verbatim>\<open>None\<close> and a string equal only themselves; booleans,
  integers and floats are compared as numbers (\<^verbatim>\<open>True == 1 == 1.0\<close>); two lists are equal
  when they have the same length and equal elements; two dictionaries are equal when they
  have the same number of keys and every key of the first is a key of the second with an
  equal value, whatever the order of the keys.
\<close>

fun py_equal :: "'f builtins \<Rightarrow> 'f pyval \<Rightarrow> 'f pyval \<Rightarrow> bool"
  and py_equal_list :: "'f builtins \<Rightarrow> 'f pyval list \<Rightarrow> 'f pyval list \<Rightarrow> bool"
  and py_equal_items :: "'f builtins \<Rightarrow> 'f pydict \<Rightarrow> 'f pydict \<Rightarrow> bool" where
  "py_equal B PNone w = (w = PNone)"
| "py_equal B (PStr s) w = (w = PStr s)"
| "py_equal B (PBool b) w =
     (case w of
        PBool c \<Rightarrow> b = c
      | PInt j \<Rightarrow> (if b then 1 else 0) = j
      | PFloat y \<Rightarrow> float_eq_int B y (if b then 1 else 0)
      | _ \<Rightarrow> False)"
| "py_equal B (PInt i) w =
     (case w of
        PBool c \<Rightarrow> i = (if c then 1 else 0)
      | PInt j \<Rightarrow> i = j
      | PFloat y \<Rightarrow> float_eq_int B y i
      | _ \<Rightarrow> False)"
| "py_equal B (PFloat x) w =
     (case w of
        PBool c \<Rightarrow> float_eq_int B x (if c then 1 else 0)
      | PInt j \<Rightarrow> float_eq_int B x j
      | PFloat y \<Rightarrow> float_eq B x y
      | _ \<Rightarrow> False)"
| "py_equal B (PList xs) w = (case w of PList ys \<Rightarrow> py_equal_list B xs ys | _ \<Rightarrow> False)"
| "py_equal B (PDict d) w =
     (case w of PDict d' \<Rightarrow> length d = length d' \<and> py_equal_items B d d' | _ \<Rightarrow> False)"
| "py_equal_list B [] ys = (ys = [])"
| "py_equal_list B (x # xs) ys =
     (case ys of [] \<Rightarrow> False | y # ys' \<Rightarrow> py_equal B x y \<and> py_equal_list B xs ys')"
| "py_equal_items B [] d' = True"
| "py_equal_items B ((k, v) # d) d' =
     ((case map_of d' k of None \<Rightarrow> False | Some w \<Rightarrow> py_equal B v w) \<and> py_equal_items B d d')"

text \<open>
  \<^verbatim>\<open>list(OrderedDict.fromkeys(xs))\<close>: the keys in first-seen order. A list or a
  dictionary is unhashable; a key is already there when it is the same object as, or equal
  to, a key seen before.
\<close>

definition hashable :: "'f pyval \<Rightarrow> bool" where
  "hashable v = (case v of PList _ \<Rightarrow> False | PDict _ \<Rightarrow> False | _ \<Rightarrow> True)"

fun fromkeys :: "'f builtins \<Rightarrow> 'f pyval list \<Rightarrow> 'f pyval list \<Rightarrow> error + 'f pyval list" where
  "fromkeys B seen [] = Inr seen"
| "fromkeys B seen (x # xs) =
     (if \<not> hashable x then Inl TypeError
      else if list_ex (\<lambda>y. y = x \<or> py_equal B y x) seen then fromkeys B seen xs
      else fromkeys B (seen @ [x]) xs)"

text \<open>A list comprehension whose element expression may raise.\<close>

fun map_result :: "('a \<Rightarrow> error + 'b) \<Rightarrow> 'a list \<Rightarrow> error + 'b list" where
  "map_result f [] = Inr []"
| "map_result f (x # xs) =
     rbind (f x) (\<lambda>y. rbind (map_result f xs) (\<lambda>ys. Inr (y # ys)))"

section \<open>The provider's models\<close>

text \<open>
  \<^verbatim>\<open>EntityModel\<close>, \<^verbatim>\<open>CompositeEntityModel\<close>, \<^verbatim>\<open>CompositeChildModel\<close>,
  \<^verbatim>\<open>IntentModel\<close> and \<^verbatim>\<open>LuisResult\<close> are the provider SDK's classes; the records
  hold the attributes the code reads.
\<close>

record 'f entity_model =
  type :: string
  entity :: string
  start_index :: int
  end_index :: int
  additional_properties :: "'f pydict option"

text \<open>
  \<^verbatim>\<open>a == b\<close> on two entities: the SDK's models compare their attribute dictionaries, so the
  type, the text and the indices are the same and the additional properties are equal as
  dictionaries (or both \<^verbatim>\<open>None\<close>).
\<close>

definition entity_eq :: "'f builtins \<Rightarrow> 'f entity_model \<Rightarrow> 'f entity_model \<Rightarrow> bool" where
  "entity_eq B a b =
     (type a = type b \<and> entity a = entity b \<and>
      start_index a = start_index b \<and> end_index a = end_index b \<and>
      (case additional_properties a of
         None \<Rightarrow> additional_properties b = None
       | Some d \<Rightarrow>
           (case additional_properties b of
              None \<Rightarrow> False
            | Some d' \<Rightarrow> py_equal B (PDict d) (PDict d'))))"

text \<open>
  \<^verbatim>\<open>e in xs\<close> for a list of entities: some element is the same object as \<open>e\<close>, or equal
  to it. An object is a value here, so the same object is the same value.
\<close>

definition in_list :: "'f builtins \<Rightarrow> 'f entity_model \<Rightarrow> 'f entity_model list \<Rightarrow> bool" where
  "in_list B e xs = list_ex (\<lambda>y. y = e \<or> entity_eq B y e) xs"

record composite_child_model =
  child_type :: string
  child_value :: string

record composite_entity_model =
  parent_type :: string
  composite_value :: string
  children :: "composite_child_model list"

record 's intent_model =
  intent :: string
  score :: "'s option"

record 's luis_result =
  intents :: "'s intent_model list option"
  top_scoring_intent :: "'s intent_model option"

datatype 's intent_score = IntentScore 's



section \<open>LuisUtil\<close>

definition normalized_intent :: "string \<Rightarrow> string" where
  "normalized_intent i = replace (replace i CHR ''.'' CHR ''_'') CHR '' '' CHR ''_''"

text \<open>\<^verbatim>\<open>i.score or 0\<close>: an absent or zero score gives 0.\<close>

definition score_or_0 :: "'s::zero option \<Rightarrow> 's" where
  "score_or_0 s = (case s of None \<Rightarrow> 0 | Some x \<Rightarrow> if x = 0 then 0 else x)"

definition get_intents :: "'s::zero luis_result \<Rightarrow> error + (string \<times> 's intent_score) list" where
  "get_intents luis_result =
     (if intents luis_result \<noteq> None \<and> intents luis_result \<noteq> Some [] then
        Inr (foldl (\<lambda>d i. dict_set d (normalized_intent (intent i)) (IntentScore (score_or_0 (score i))))
               [] (the (intents luis_result)))
      else
        (case top_scoring_intent luis_result of
           None \<Rightarrow> Inl AttributeError
         | Some t \<Rightarrow> Inr [(normalized_intent (intent t), IntentScore (score_or_0 (score t)))]))"

definition number :: "'f builtins \<Rightarrow> 'f pyval \<Rightarrow> error + 'f pyval" where
  "number B v =
     (if v = PNone then Inr PNone
      else
        (let s = py_str B v in
         case py_int s of
           Some i \<Rightarrow> Inr (PInt i)
         | None \<Rightarrow> (case py_float B s of Some f \<Rightarrow> Inr (PFloat f) | None \<Rightarrow> Inl ValueError)))"

text \<open>The \<^verbatim>\<open>builtin.datetimeV2.\<close> branch of \<^verbatim>\<open>extract_entity_value\<close>.\<close>

definition datetimeV2_value :: "'f builtins \<Rightarrow> 'f pyval \<Rightarrow> error + 'f pyval" where
  "datetimeV2_value B resolution =
     rbind (getitem resolution ''values'') (\<lambda>vs.
       if \<not> truthy B vs then Inr resolution
       else
         rbind (getitem resolution ''values'') (\<lambda>resolution_values.
         rbind (getitem resolution ''values'') (\<lambda>vs0.
         rbind (getitem0 vs0) (\<lambda>v0.
         rbind (getitem v0 ''type'') (\<lambda>val_type.
         rbind (iterate resolution_values) (\<lambda>vals.
         rbind (map_result (\<lambda>val. getitem val ''timex'') vals) (\<lambda>timexes.
         rbind (fromkeys B [] timexes) (\<lambda>distinct_timexes.
           Inr (PDict [(''type'', val_type), (''timex'', PList distinct_timexes)])))))))))"

definition extract_entity_value :: "'f builtins \<Rightarrow> 'f entity_model \<Rightarrow> error + 'f pyval" where
  "extract_entity_value B e =
     (case additional_properties e of
        None \<Rightarrow> Inr (PStr (entity e))
      | Some props \<Rightarrow>
         (case map_of props ''resolution'' of
            None \<Rightarrow> Inr (PStr (entity e))
          | Some resolution \<Rightarrow>
              if startswith (type e) ''builtin.datetime.'' then Inr resolution
              else if startswith (type e) ''builtin.datetimeV2.'' then datetimeV2_value B resolution
              else if type e \<in> {''builtin.number'', ''builtin.ordinal''} then
                rbind (getitem resolution ''value'') (number B)
              else if type e = ''builtin.percentage'' then
                rbind (getitem resolution ''value'') (\<lambda>v.
                  let svalue = py_str B v;
                      svalue = (if endswith svalue ''%'' then butlast svalue else svalue)
                  in number B (PStr svalue))
              else if type e \<in> {''builtin.age'', ''builtin.dimension'',
                                 ''builtin.currency'', ''builtin.temperature''} then
                rbind (getattr_unit resolution) (\<lambda>u.
                  let units = py_str B u in
                  rbind (getitem resolution ''value'') (\<lambda>rv.
                  rbind (number B rv) (\<lambda>val.
                    Inr (PDict ((if val \<noteq> PNone then [(''number'', val)] else [])
                                @ [(''units'', PStr units)])))))
              else
                rbind (dict_get resolution ''value'') (\<lambda>a.
                  if truthy B a then Inr a else dict_get resolution ''values'')))"

definition extract_entity_metadata :: "'f builtins \<Rightarrow> 'f entity_model \<Rightarrow> error + 'f pyval" where
  "extract_entity_metadata B e =
     (let obj = [(''startIndex'', PInt (start_index e)), (''endIndex'', PInt (end_index e + 1)),
                 (''text'', PStr (entity e)), (''type'', PStr (type e))]
      in case additional_properties e of
           None \<Rightarrow> Inr (PDict obj)
         | Some props \<Rightarrow>
             rbind (case map_of props ''score'' of
                      None \<Rightarrow> Inr obj
                    | Some sc \<Rightarrow> rbind (py_float_of B sc) (\<lambda>x. Inr (dict_set obj ''score'' (PFloat x))))
               (\<lambda>obj.
                  let resolution = (case map_of props ''resolution'' of None \<Rightarrow> PNone | Some r \<Rightarrow> r)
                  in if resolution = PNone then Inr (PDict obj)
                     else
                       rbind (dict_get resolution ''subtype'') (\<lambda>st.
                         if st \<noteq> PNone then
                           rbind (getitem resolution ''subtype'') (\<lambda>v.
                             Inr (PDict (dict_set obj ''subtype'' v)))
                         else Inr (PDict obj))))"

definition extract_normalized_entity_name :: "'f builtins \<Rightarrow> 'f entity_model \<Rightarrow> error + string" where
  "extract_normalized_entity_name B e =
     (let t = split_last CHR '':'' (type e);
          t = (if startswith t ''builtin.datetimeV2.'' then ''datetime'' else t);
          t = (if startswith t ''builtin.currency'' then ''money'' else t);
          t = (if startswith t ''builtin.'' then drop 8 t else t);
          role = (case additional_properties e of
                    None \<Rightarrow> PStr []
                  | Some props \<Rightarrow> (case map_of props ''role'' of None \<Rightarrow> PStr [] | Some r \<Rightarrow> r))
      in rbind (if truthy B role then
                  (case role of
                     PStr r \<Rightarrow> Inr (if \<not> isspace r then r else t)
                   | _ \<Rightarrow> Inl AttributeError)
                else Inr t)
           (\<lambda>t. Inr (replace (replace t CHR ''.'' CHR ''_'') CHR '' '' CHR ''_'')))"

definition composite_contains_entity :: "'f entity_model \<Rightarrow> 'f entity_model \<Rightarrow> bool" where
  "composite_contains_entity composite_entity_metadata e =
     (start_index e \<ge> start_index composite_entity_metadata
      \<and> end_index e \<le> end_index composite_entity_metadata)"

definition add_property :: "'f pydict \<Rightarrow> string \<Rightarrow> 'f pyval \<Rightarrow> error + 'f pydict" where
  "add_property obj key v =
     (case map_of obj key of
        Some cur \<Rightarrow>
          (case cur of
             PList xs \<Rightarrow> Inr (dict_set obj key (PList (xs @ [v])))
           | _ \<Rightarrow> Inl AttributeError)
      | None \<Rightarrow> Inr (dict_set obj key (PList [v])))"

text \<open>
  \<^verbatim>\<open>add_property(obj["$instance"], key, value)\<close>, the call made in verbose mode. The
  key \<^verbatim>\<open>$instance\<close> holds the dictionary put there when \<open>obj\<close> was created; a missing
  key raises \<^verbatim>\<open>KeyError\<close>, and a list or a scalar found there takes no string key.
\<close>

definition add_metadata_property :: "'f pydict \<Rightarrow> string \<Rightarrow> 'f pyval \<Rightarrow> error + 'f pydict" where
  "add_metadata_property obj key v =
     (case map_of obj ''$instance'' of
        None \<Rightarrow> Inl KeyError
      | Some cur \<Rightarrow>
          (case cur of
             PDict m \<Rightarrow> rbind (add_property m key v) (\<lambda>m'. Inr (dict_set obj ''$instance'' (PDict m')))
           | _ \<Rightarrow> Inl TypeError))"

text \<open>
  The statements both loops run for an entity they keep (lines 70 to 81 and 235 to 246):
  its value under its normalized name and, in verbose mode, its metadata under the same
  name of the \<^verbatim>\<open>$instance\<close> dictionary.
\<close>

definition add_entity :: "'f builtins \<Rightarrow> bool \<Rightarrow> 'f pydict \<Rightarrow> 'f entity_model \<Rightarrow> error + 'f pydict" where
  "add_entity B verbose obj e =
     rbind (extract_normalized_entity_name B e) (\<lambda>name.
     rbind (extract_entity_value B e) (\<lambda>v.
     rbind (add_property obj name v) (\<lambda>obj.
       if verbose then
         rbind (extract_normalized_entity_name B e) (\<lambda>name.
         rbind (extract_entity_metadata B e) (\<lambda>md.
           add_metadata_property obj name md))
       else Inr obj)))"

text \<open>
  The inner loop of \<^verbatim>\<open>populate_composite_entity_model\<close> for one child descriptor: the
  state is the pair of \<^verbatim>\<open>covered_set\<close> and \<^verbatim>\<open>children_entities\<close>.
\<close>

fun collect_child ::
  "'f builtins \<Rightarrow> bool \<Rightarrow> 'f entity_model \<Rightarrow> composite_child_model \<Rightarrow> 'f entity_model list
   \<Rightarrow> 'f entity_model list \<times> 'f pydict \<Rightarrow> error + 'f entity_model list \<times> 'f pydict" where
  "collect_child B verbose meta child [] st = Inr st"
| "collect_child B verbose meta child (e # es) (covered_set, children_entities) =
     (if in_list B e covered_set then
        collect_child B verbose meta child es (covered_set, children_entities)
      else if child_type child \<noteq> type e \<or> \<not> composite_contains_entity meta e then
        collect_child B verbose meta child es (covered_set, children_entities)
      else
        rbind (add_entity B verbose children_entities e) (\<lambda>children_entities.
          collect_child B verbose meta child es (covered_set @ [e], children_entities)))"

fun collect_children ::
  "'f builtins \<Rightarrow> bool \<Rightarrow> 'f entity_model \<Rightarrow> composite_child_model list \<Rightarrow> 'f entity_model list
   \<Rightarrow> 'f entity_model list \<times> 'f pydict \<Rightarrow> error + 'f entity_model list \<times> 'f pydict" where
  "collect_children B verbose meta [] es st = Inr st"
| "collect_children B verbose meta (child # cs) es st =
     rbind (collect_child B verbose meta child es st) (collect_children B verbose meta cs es)"

text \<open>
  \<^verbatim>\<open>populate_composite_entity_model\<close> mutates \<^verbatim>\<open>entities_and_metadata\<close> and returns the
  reduced list; the model returns both.
\<close>

definition populate_composite_entity_model ::
  "'f builtins \<Rightarrow> composite_entity_model \<Rightarrow> 'f entity_model list \<Rightarrow> 'f pydict \<Rightarrow> bool
   \<Rightarrow> error + 'f entity_model list \<times> 'f pydict" where
  "populate_composite_entity_model B composite_entity entities entities_and_metadata verbose =
     (let children_entities = (if verbose then [(''$instance'', PDict [])] else [])
      in case find (\<lambda>e. type e = parent_type composite_entity
                        \<and> entity e = composite_value composite_entity) entities of
           None \<Rightarrow> Inr (entities, entities_and_metadata)
         | Some composite_entity_metadata \<Rightarrow>
             rbind (if verbose then extract_entity_metadata B composite_entity_metadata
                    else Inr (PDict [])) (\<lambda>children_entities_metadata.
             let children_entities =
                   (if verbose then dict_set children_entities ''$instance'' (PDict [])
                    else children_entities)
             in
             rbind (collect_children B verbose composite_entity_metadata
                      (children composite_entity) entities ([], children_entities)) (\<lambda>st.
             rbind (extract_normalized_entity_name B composite_entity_metadata) (\<lambda>name.
             rbind (add_property entities_and_metadata name (PDict (snd st))) (\<lambda>out.
             rbind (if verbose then
                      rbind (extract_normalized_entity_name B composite_entity_metadata) (\<lambda>name.
                        add_metadata_property out name children_entities_metadata)
                    else Inr out) (\<lambda>out.
               Inr (filter (\<lambda>e. \<not> in_list B e (fst st)) entities, out)))))))"

text \<open>The loop over the composite descriptors, threading \<^verbatim>\<open>current\<close> and the output.\<close>

fun populate_all ::
  "'f builtins \<Rightarrow> bool \<Rightarrow> composite_entity_model list \<Rightarrow> 'f entity_model list \<Rightarrow> 'f pydict
   \<Rightarrow> error + 'f entity_model list \<times> 'f pydict" where
  "populate_all B verbose [] current out = Inr (current, out)"
| "populate_all B verbose (ce # ces) current out =
     rbind (populate_composite_entity_model B ce current out verbose)
       (\<lambda>r. populate_all B verbose ces (fst r) (snd r))"

text \<open>The final loop over the entities left, skipping the composite parent types.\<close>

fun flat_pass ::
  "'f builtins \<Rightarrow> bool \<Rightarrow> string set \<Rightarrow> 'f entity_model list \<Rightarrow> 'f pydict \<Rightarrow> error + 'f pydict" where
  "flat_pass B verbose composite_entity_types [] out = Inr out"
| "flat_pass B verbose composite_entity_types (e # es) out =
     (if type e \<in> composite_entity_types then flat_pass B verbose composite_entity_types es out
      else rbind (add_entity B verbose out e) (flat_pass B verbose composite_entity_types es))"

text \<open>
  \<^verbatim>\<open>composite_entities\<close> is \<^verbatim>\<open>None\<close> when the provider sent none; \<^verbatim>\<open>None\<close> and the
  empty list are both false in \<^verbatim>\<open>if composite_entities:\<close>.
\<close>

definition extract_entities_and_metadata ::
  "'f builtins \<Rightarrow> 'f entity_model list \<Rightarrow> composite_entity_model list option \<Rightarrow> bool
   \<Rightarrow> error + 'f pydict" where
  "extract_entities_and_metadata B entities composite_entities verbose =
     (let entities_and_metadata = (if verbose then [(''$instance'', PDict [])] else [])
      in case composite_entities of
           None \<Rightarrow> flat_pass B verbose {} entities entities_and_metadata
         | Some ces \<Rightarrow>
             if ces = [] then flat_pass B verbose {} entities entities_and_metadata
             else
               (let composite_entity_types = set (map parent_type ces)
                in rbind (populate_all B verbose ces entities entities_and_metadata)
                     (\<lambda>r. flat_pass B verbose composite_entity_types (fst r) (snd r))))"

section \<open>RecognizerResult\<close>



section \<open>The normalized name as a sequence of steps\<close>

text \<open>
  The role of an occurrence is the value under \<^verbatim>\<open>role\<close> of its additional properties.
\<close>

definition role_of :: "'f entity_model \<Rightarrow> 'f pyval option" where
  "role_of e = (case additional_properties e of None \<Rightarrow> None | Some props \<Rightarrow> map_of props ''role'')"

definition role_string :: "'f entity_model \<Rightarrow> string option" where
  "role_string e = (case role_of e of Some (PStr r) \<Rightarrow> Some r | _ \<Rightarrow> None)"

text \<open>
  The six steps of the spec's NormalizedEntityName, each as a function on the name so far.
\<close>

definition strip_role_qualifier :: "string \<Rightarrow> string" where
  "strip_role_qualifier t = split_last CHR '':'' t"

definition role_replaces :: "string option \<Rightarrow> string \<Rightarrow> string" where
  "role_replaces role t =
     (case role of None \<Rightarrow> t | Some r \<Rightarrow> if r \<noteq> [] \<and> \<not> isspace r then r else t)"

definition collapse_datetimeV2 :: "string \<Rightarrow> string" where
  "collapse_datetimeV2 t = (if startswith t ''builtin.datetimeV2.'' then ''datetime'' else t)"

definition collapse_currency :: "string \<Rightarrow> string" where
  "collapse_currency t = (if startswith t ''builtin.currency'' then ''money'' else t)"

definition strip_builtin :: "string \<Rightarrow> string" where
  "strip_builtin t = (if startswith t ''builtin.'' then drop 8 t else t)"

definition underscores :: "string \<Rightarrow> string" where
  "underscores t = replace (replace t CHR ''.'' CHR ''_'') CHR '' '' CHR ''_''"

text \<open>
  The steps in the order the spec lists them: (1) qualifier, (2) role, (3) datetimeV2,
  (4) currency, (5) builtin prefix, (6) underscores.
\<close>

definition name_in_spec_order :: "string \<Rightarrow> string option \<Rightarrow> string" where
  "name_in_spec_order t role =
     underscores (strip_builtin (collapse_currency (collapse_datetimeV2
       (role_replaces role (strip_role_qualifier t)))))"

text \<open>The same steps with the role applied after the builtin prefix is stripped.\<close>

definition name_in_code_order :: "string \<Rightarrow> string option \<Rightarrow> string" where
  "name_in_code_order t role =
     underscores (role_replaces role (strip_builtin (collapse_currency (collapse_datetimeV2
       (strip_role_qualifier t)))))"

section \<open>What the entities of a list contribute\<close>

text \<open>
  An entity is named \<open>k\<close> when its normalized name is \<open>k\<close>. The values (the metadata
  records) under \<open>k\<close> are those of the entities named \<open>k\<close>, in the order of the list.
\<close>

definition named :: "'f builtins \<Rightarrow> string \<Rightarrow> 'f entity_model \<Rightarrow> bool" where
  "named B k e = (extract_normalized_entity_name B e = Inr k)"

definition values_under :: "'f builtins \<Rightarrow> string \<Rightarrow> 'f entity_model list \<Rightarrow> 'f pyval list" where
  "values_under B k es = map (\<lambda>e. projr (extract_entity_value B e)) (filter (named B k) es)"

definition metadata_under :: "'f builtins \<Rightarrow> string \<Rightarrow> 'f entity_model list \<Rightarrow> 'f pyval list" where
  "metadata_under B k es = map (\<lambda>e. projr (extract_entity_metadata B e)) (filter (named B k) es)"

text \<open>
  The extraction of an entity succeeds when its name and its value are computed without
  an exception and, in verbose mode, its metadata too and its name is not the key
  \<^verbatim>\<open>$instance\<close>, which holds the metadata dictionary.
\<close>

definition extracts :: "'f builtins \<Rightarrow> bool \<Rightarrow> 'f entity_model \<Rightarrow> bool" where
  "extracts B verbose e =
     (\<not> isl (extract_normalized_entity_name B e) \<and> \<not> isl (extract_entity_value B e) \<and>
      (verbose \<longrightarrow> \<not> isl (extract_entity_metadata B e)
                   \<and> extract_normalized_entity_name B e \<noteq> Inr ''$instance''))"

text \<open>
  The conditions (b) and (c) of the spec's composite resolver on an entity: its type is one
  of the descriptor's child types, and its span lies within the parent's span (its start
  is not before the parent's start and its end is not after the parent's end).
\<close>

definition is_child :: "composite_entity_model \<Rightarrow> 'f entity_model \<Rightarrow> 'f entity_model \<Rightarrow> bool" where
  "is_child ce meta e =
     (list_ex (\<lambda>c. child_type c = type e) (children ce) \<and>
      start_index meta \<le> start_index e \<and> end_index e \<le> end_index meta)"

text \<open>
  A list of entities has no repeats after \<open>seen\<close> when none of its elements is in the
  list of those before it (\<open>seen\<close> first), in the sense of \<^verbatim>\<open>in\<close>.
\<close>

fun no_repeats_from :: "'f builtins \<Rightarrow> 'f entity_model list \<Rightarrow> 'f entity_model list \<Rightarrow> bool" where
  "no_repeats_from B seen [] = True"
| "no_repeats_from B seen (x # xs) = (\<not> in_list B x seen \<and> no_repeats_from B (seen @ [x]) xs)"

text \<open>
  An entity is an unresolved parent for a list of composite descriptors when its type is
  the parent type of one of them, no descriptor has both its type and its text (so no
  descriptor resolves to it), and its type is the child type of none (so it is never
  consumed as a child).
\<close>

definition unresolved_parent :: "composite_entity_model list \<Rightarrow> 'f entity_model \<Rightarrow> bool" where
  "unresolved_parent ces e =
     (type e \<in> set (map parent_type ces) \<and>
      list_all (\<lambda>ce. \<not> (type e = parent_type ce \<and> entity e = composite_value ce) \<and>
                      list_all (\<lambda>c. child_type c \<noteq> type e) (children ce)) ces)"

text \<open>
  A mapping holds what the entities of a list contribute (through \<open>f\<close>) when, under every
  key outside \<open>X\<close>, it has the list of their contributions, and no entry for a key no
  entity is named. The accumulated output has the values and, in verbose mode, the
  metadata under \<^verbatim>\<open>$instance\<close>.
\<close>

definition holds :: "('f entity_model \<Rightarrow> error + 'f pyval) \<Rightarrow> 'f builtins \<Rightarrow> string set
    \<Rightarrow> 'f entity_model list \<Rightarrow> 'f pydict \<Rightarrow> bool" where
  "holds f B X es out =
     (\<forall>k. k \<notin> X \<longrightarrow>
        map_of out k = (if list_ex (named B k) es
                        then Some (PList (map (\<lambda>e. projr (f e)) (filter (named B k) es))) else None))"

definition accumulated :: "'f builtins \<Rightarrow> bool \<Rightarrow> 'f entity_model list \<Rightarrow> 'f pydict \<Rightarrow> bool" where
  "accumulated B verbose es out =
     (if verbose then
        holds (extract_entity_value B) B {''$instance''} es out \<and>
        (\<exists>m. map_of out ''$instance'' = Some (PDict m) \<and> holds (extract_entity_metadata B) B {} es m)
      else holds (extract_entity_value B) B {} es out)"

section \<open>An interpreter instance for the examples\<close>

text \<open>
  The examples below are evaluated with this instance: a float is represented by the
  literal it was read from (the decimal digits of the integer, for \<^verbatim>\<open>float(i)\<close>) and is
  true unless its mantissa has only zeros; a float prints as its literal and a container
  as \<^verbatim>\<open>[...]\<close>; two floats are equal when their literals are, and a float equals an
  integer when its literal is the integer's. No result shown below depends on these
  choices.
\<close>

definition example_builtins :: "string builtins" where
  "example_builtins =
     \<lparr>float_of_literal = (\<lambda>s. s),
      float_of_int = (\<lambda>i. Some (str_int i)),
      float_truthy = (\<lambda>x. list_ex (\<lambda>c. c \<notin> set ''0._+-'') (takeWhile (\<lambda>c. \<not> is_e c) x)),
      str_other = (\<lambda>v. case v of PFloat x \<Rightarrow> x | _ \<Rightarrow> ''[...]''),
      float_eq = (\<lambda>x y. x = y),
      float_eq_int = (\<lambda>x i. x = str_int i)\<rparr>"

section \<open>The top-intent query\<close>




section \<open>The numeric coercer\<close>

lemma py_int_72: "py_int ''72'' = Some 72"
  by code_simp

lemma py_int_7_5: "py_int ''7.5'' = None"
  by code_simp

lemma py_int_abc: "py_int ''abc'' = None"
  by code_simp

lemma float_literal_7_5: "is_float_literal ''7.5''"
  by code_simp

lemma float_literal_abc: "\<not> is_float_literal ''abc''"
  by code_simp

lemma strip_7_5: "strip ''7.5'' = ''7.5''"
  by code_simp

text \<open>
  The separator 28 is whitespace for \<^verbatim>\<open>str.isspace\<close> and is not skipped by \<^verbatim>\<open>int\<close> or
  \<^verbatim>\<open>float\<close>; the no-break space 160 is skipped.
\<close>

lemma py_int_separator: "py_int [CHR 0x1C, CHR ''1'', CHR ''2''] = None"
  by code_simp

lemma float_literal_separator: "\<not> is_float_literal [CHR 0x1C, CHR ''1'', CHR ''2'']"
  by code_simp

lemma py_int_no_break_space: "py_int [CHR 0xA0, CHR ''1'', CHR ''2'', CHR 0x09] = Some 12"
  by code_simp

lemma digitpart_chars: "digitpart r \<Longrightarrow> \<forall>c\<in>set r. is_digit c \<or> c = CHR ''_''"
  by (induction r rule: digitpart.induct) (auto split: if_splits)

lemma digit_plain: "is_digit c \<or> c = CHR ''_'' \<Longrightarrow> c \<noteq> CHR ''.'' \<and> \<not> is_e c"
  by (auto simp: is_digit_def is_e_def)

lemma digitpart_is_float:
  assumes "digitpart r"
  shows "takeWhile (\<lambda>c. \<not> is_e c) r = r" and "dropWhile (\<lambda>c. \<not> is_e c) r = []"
    and "pointfloat r"
proof -
  from digitpart_chars [OF assms] digit_plain
  have plain: "\<forall>c\<in>set r. c \<noteq> CHR ''.'' \<and> \<not> is_e c" by blast
  then show "takeWhile (\<lambda>c. \<not> is_e c) r = r" "dropWhile (\<lambda>c. \<not> is_e c) r = []"
    by (simp_all add: takeWhile_eq_all_conv dropWhile_eq_Nil_conv)
  from plain have d: "takeWhile (\<lambda>c. c \<noteq> CHR ''.'') r = r" "dropWhile (\<lambda>c. c \<noteq> CHR ''.'') r = []"
    by (simp_all add: takeWhile_eq_all_conv dropWhile_eq_Nil_conv)
  show "pointfloat r"
    unfolding pointfloat_def Let_def d using assms by simp
qed

lemma int_literal_is_float_literal:
  assumes "py_int s = Some i"
  shows "is_float_literal s"
proof -
  from assms obtain c cs where s: "strip s = c # cs"
    by (auto simp: py_int_def split: list.splits)
  have "digitpart (unsigned (strip s))"
    using assms s by (auto simp: py_int_def unsigned_def split: if_splits)
  note f = digitpart_is_float [OF this]
  show ?thesis
    unfolding is_float_literal_def Let_def f using f(3) by simp
qed

text \<open>
  Claim C8. \<^verbatim>\<open>number\<close> returns \<^verbatim>\<open>None\<close> for \<^verbatim>\<open>None\<close> and for nothing else. For any
  other value it returns the integer \<^verbatim>\<open>int(str(value))\<close> exactly when that parse succeeds;
  it returns a float exactly when the integer parse fails and \<^verbatim>\<open>float(str(value))\<close>
  succeeds; and it raises, a \<^verbatim>\<open>ValueError\<close>, exactly when both parses fail: no default is
  returned in their place. The integer parse comes first: every string it accepts the
  float parse accepts too.
\<close>

theorem number_int_then_float:
  "(number B v = Inr PNone \<longleftrightarrow> v = PNone) \<and>
   (\<forall>i. number B v = Inr (PInt i) \<longleftrightarrow> v \<noteq> PNone \<and> py_int (py_str B v) = Some i) \<and>
   (\<forall>x. number B v = Inr (PFloat x) \<longleftrightarrow>
          v \<noteq> PNone \<and> py_int (py_str B v) = None \<and> py_float B (py_str B v) = Some x) \<and>
   (\<forall>err. number B v = Inl err \<longleftrightarrow>
          err = ValueError \<and> v \<noteq> PNone \<and> py_int (py_str B v) = None
          \<and> py_float B (py_str B v) = None) \<and>
   (\<forall>i. py_int (py_str B v) = Some i \<longrightarrow> py_float B (py_str B v) \<noteq> None)"
proof (intro conjI allI impI)
  show "number B v = Inr PNone \<longleftrightarrow> v = PNone"
    by (auto simp: number_def Let_def split: option.splits)
next
  fix i
  show "number B v = Inr (PInt i) \<longleftrightarrow> v \<noteq> PNone \<and> py_int (py_str B v) = Some i"
    by (auto simp: number_def Let_def split: option.splits)
next
  fix x
  show "number B v = Inr (PFloat x) \<longleftrightarrow>
          v \<noteq> PNone \<and> py_int (py_str B v) = None \<and> py_float B (py_str B v) = Some x"
    by (auto simp: number_def Let_def split: option.splits)
next
  fix err
  show "number B v = Inl err \<longleftrightarrow>
          err = ValueError \<and> v \<noteq> PNone \<and> py_int (py_str B v) = None
          \<and> py_float B (py_str B v) = None"
    by (auto simp: number_def Let_def split: option.splits)
next
  fix i
  assume "py_int (py_str B v) = Some i"
  then have "is_float_literal (py_str B v)" by (rule int_literal_is_float_literal)
  then show "py_float B (py_str B v) \<noteq> None" by (simp add: py_float_def)
qed

theorem number_int_then_float_witness:
  "number example_builtins (PStr ''72'') = Inr (PInt 72) \<and>
   number example_builtins (PStr ''7.5'') = Inr (PFloat ''7.5'') \<and>
   number example_builtins (PStr ''abc'') = Inl ValueError \<and>
   number example_builtins (PStr [CHR 0x1C, CHR ''1'', CHR ''2'']) = Inl ValueError \<and>
   number example_builtins (PStr [CHR 0xA0, CHR ''1'', CHR ''2'', CHR 0x09]) = Inr (PInt 12)"
  using number_int_then_float [of example_builtins "PStr ''72''"]
        number_int_then_float [of example_builtins "PStr ''7.5''"]
        number_int_then_float [of example_builtins "PStr ''abc''"]
        number_int_then_float [of example_builtins "PStr [CHR 0x1C, CHR ''1'', CHR ''2'']"]
        number_int_then_float [of example_builtins "PStr [CHR 0xA0, CHR ''1'', CHR ''2'', CHR 0x09]"]
  by (simp add: py_str_def py_float_def py_int_72 py_int_7_5 py_int_abc float_literal_7_5
        float_literal_abc strip_7_5 py_int_separator float_literal_separator
        py_int_no_break_space example_builtins_def)

section \<open>Unit-bearing entity types\<close>

text \<open>
  Claim C1 says that an entity of type \<^verbatim>\<open>builtin.age\<close>, \<^verbatim>\<open>builtin.dimension\<close>,
  \<^verbatim>\<open>builtin.currency\<close> or \<^verbatim>\<open>builtin.temperature\<close> with a resolution payload yields
  \<^verbatim>\<open>{number, units}\<close>. The code reads the unit as an attribute (\<^verbatim>\<open>resolution.unit\<close>) where
  it reads the value as an item (\<^verbatim>\<open>resolution["value"]\<close>): on every such entity
  \<^verbatim>\<open>extract_entity_value\<close> raises \<^verbatim>\<open>AttributeError\<close> before anything is coerced.
\<close>

theorem extract_entity_value_units_raises:
  assumes "type e \<in> {''builtin.age'', ''builtin.dimension'', ''builtin.currency'',
                      ''builtin.temperature''}"
    and "additional_properties e = Some props"
    and "map_of props ''resolution'' = Some resolution"
  shows "extract_entity_value B e = Inl AttributeError"
  using assms
  by (auto simp add: extract_entity_value_def startswith_def getattr_unit_def rbind_def)

text \<open>
  The spec's example, \<^verbatim>\<open>builtin.temperature\<close> with the resolution
  \<^verbatim>\<open>{value: "72", unit: "Fahrenheit"}\<close>.
\<close>

theorem extract_entity_value_units_raises_witness:
  "extract_entity_value example_builtins
     \<lparr>type = ''builtin.temperature'', entity = ''72 degrees'', start_index = 0, end_index = 9,
      additional_properties =
        Some [(''resolution'', PDict [(''value'', PStr ''72''), (''unit'', PStr ''Fahrenheit'')])]\<rparr>
   = Inl AttributeError"
  using extract_entity_value_units_raises
    [of "\<lparr>type = ''builtin.temperature'', entity = ''72 degrees'', start_index = 0, end_index = 9,
          additional_properties =
            Some [(''resolution'', PDict [(''value'', PStr ''72''), (''unit'', PStr ''Fahrenheit'')])]\<rparr>"
        "[(''resolution'', PDict [(''value'', PStr ''72''), (''unit'', PStr ''Fahrenheit'')])]"
        "PDict [(''value'', PStr ''72''), (''unit'', PStr ''Fahrenheit'')]" example_builtins]
  by simp

section \<open>A composite whose parent is missing\<close>

text \<open>
  Claim C7. When no entity of the working list has the descriptor's parent type and the
  descriptor's value as its text, \<^verbatim>\<open>populate_composite_entity_model\<close> raises nothing,
  leaves the output mapping as it was and returns the working list unchanged.
\<close>

theorem populate_missing_parent:
  assumes "\<forall>e\<in>set entities. \<not> (type e = parent_type ce \<and> entity e = composite_value ce)"
  shows "populate_composite_entity_model B ce entities out verbose = Inr (entities, out)"
proof -
  have "find (\<lambda>e. type e = parent_type ce \<and> entity e = composite_value ce) entities = None"
    using assms by (simp add: find_None_iff)
  then show ?thesis by (simp add: populate_composite_entity_model_def)
qed

theorem populate_missing_parent_witness:
  "populate_composite_entity_model example_builtins
     \<lparr>parent_type = ''roomBooking'', composite_value = ''a room in rome'',
      children = [\<lparr>child_type = ''city'', child_value = ''rome''\<rparr>]\<rparr>
     [\<lparr>type = ''city'', entity = ''rome'', start_index = 10, end_index = 13,
       additional_properties = None\<rparr>]
     [(''size'', PList [PStr ''large''])] True
   = Inr ([\<lparr>type = ''city'', entity = ''rome'', start_index = 10, end_index = 13,
            additional_properties = None\<rparr>],
          [(''size'', PList [PStr ''large''])])"
  using populate_missing_parent
    [of "[\<lparr>type = ''city'', entity = ''rome'', start_index = 10, end_index = 13,
           additional_properties = None :: string pydict option\<rparr>]"
        "\<lparr>parent_type = ''roomBooking'', composite_value = ''a room in rome'',
          children = [\<lparr>child_type = ''city'', child_value = ''rome''\<rparr>]\<rparr>"
        example_builtins "[(''size'', PList [PStr ''large''])]" True]
  by simp

section \<open>The intent mapping\<close>

lemma map_of_dict_set: "map_of (dict_set d k v) = (map_of d)(k \<mapsto> v)"
  by (induction d k v rule: dict_set.induct) (auto simp: fun_upd_twist)

lemma keys_dict_set:
  "map fst (dict_set d k v) = (if k \<in> set (map fst d) then map fst d else map fst d @ [k])"
  by (induction d k v rule: dict_set.induct) auto

lemma distinct_dict_set: "distinct (map fst d) \<Longrightarrow> distinct (map fst (dict_set d k v))"
  by (simp add: keys_dict_set)

lemma set_keys_dict_set: "fst ` set (dict_set d k v) = insert k (fst ` set d)"
  using arg_cong [OF keys_dict_set [of d k v], of set] by (auto split: if_splits)

text \<open>
  A dictionary comprehension: the keys are those computed, each once, and a key holds the
  value of the last element that computed it.
\<close>

lemma fold_dict_set:
  fixes key :: "'a \<Rightarrow> string" and val :: "'a \<Rightarrow> 'v"
  shows "distinct (map fst (foldl (\<lambda>d i. dict_set d (key i) (val i)) [] xs)) \<and>
         set (map fst (foldl (\<lambda>d i. dict_set d (key i) (val i)) [] xs)) = key ` set xs \<and>
         (\<forall>i<length xs. (\<forall>j<length xs. i < j \<longrightarrow> key (xs ! j) \<noteq> key (xs ! i)) \<longrightarrow>
            map_of (foldl (\<lambda>d i. dict_set d (key i) (val i)) [] xs) (key (xs ! i)) = Some (val (xs ! i)))"
proof (induction xs rule: rev_induct)
  case Nil
  show ?case by simp
next
  case (snoc x xs)
  let ?d = "foldl (\<lambda>d i. dict_set d (key i) (val i)) [] xs"
  have step: "foldl (\<lambda>d i. dict_set d (key i) (val i)) [] (xs @ [x]) = dict_set ?d (key x) (val x)"
    by simp
  have d: "distinct (map fst (dict_set ?d (key x) (val x)))"
    using snoc by (intro distinct_dict_set) blast
  have k: "set (map fst (dict_set ?d (key x) (val x))) = key ` set (xs @ [x])"
  proof -
    from snoc have "fst ` set ?d = key ` set xs" by simp
    then show ?thesis by (simp add: set_keys_dict_set)
  qed
  have l: "\<forall>i<length (xs @ [x]).
             (\<forall>j<length (xs @ [x]). i < j \<longrightarrow> key ((xs @ [x]) ! j) \<noteq> key ((xs @ [x]) ! i)) \<longrightarrow>
             map_of (dict_set ?d (key x) (val x)) (key ((xs @ [x]) ! i)) = Some (val ((xs @ [x]) ! i))"
  proof (intro allI impI)
    fix i
    assume i: "i < length (xs @ [x])"
      and last: "\<forall>j<length (xs @ [x]). i < j \<longrightarrow> key ((xs @ [x]) ! j) \<noteq> key ((xs @ [x]) ! i)"
    show "map_of (dict_set ?d (key x) (val x)) (key ((xs @ [x]) ! i)) = Some (val ((xs @ [x]) ! i))"
    proof (cases "i = length xs")
      case True
      then show ?thesis by (simp add: map_of_dict_set)
    next
      case False
      with i have il: "i < length xs" by simp
      from last il have ne: "key x \<noteq> key (xs ! i)"
        by (auto simp: nth_append dest: spec [of _ "length xs"])
      have "\<forall>j<length xs. i < j \<longrightarrow> key (xs ! j) \<noteq> key (xs ! i)"
      proof (intro allI impI)
        fix j assume "j < length xs" "i < j"
        with last [rule_format, of j] il show "key (xs ! j) \<noteq> key (xs ! i)"
          by (simp add: nth_append)
      qed
      with snoc il have "map_of ?d (key (xs ! i)) = Some (val (xs ! i))" by blast
      with ne il show ?thesis by (simp add: map_of_dict_set nth_append)
    qed
  qed
  from d k l show ?case unfolding step by blast
qed

text \<open>
  Claim C10. For a non-empty intent list \<^verbatim>\<open>get_intents\<close> returns a mapping whose keys are
  the normalized names, each once; under a name it holds the score (\<^verbatim>\<open>score or 0\<close>) of the
  last intent of the list with that normalized name, so the scores of earlier intents with
  the same normalized name are gone; and when two intents normalize to the same name the
  mapping has fewer entries than the list.
\<close>

theorem get_intents_last_wins:
  fixes r :: "'s::zero luis_result"
  assumes "intents r = Some xs" and "xs \<noteq> []"
  shows "\<exists>d. get_intents r = Inr d \<and>
           distinct (map fst d) \<and>
           set (map fst d) = (\<lambda>i. normalized_intent (intent i)) ` set xs \<and>
           (\<forall>i<length xs.
              (\<forall>j<length xs. i < j \<longrightarrow>
                 normalized_intent (intent (xs ! j)) \<noteq> normalized_intent (intent (xs ! i))) \<longrightarrow>
              map_of d (normalized_intent (intent (xs ! i)))
                = Some (IntentScore (score_or_0 (score (xs ! i))))) \<and>
           length d \<le> length xs \<and>
           (\<not> distinct (map (\<lambda>i. normalized_intent (intent i)) xs) \<longrightarrow> length d < length xs)"
proof -
  let ?key = "\<lambda>i :: 's intent_model. normalized_intent (intent i)"
  let ?val = "\<lambda>i :: 's intent_model. IntentScore (score_or_0 (score i))"
  let ?d = "foldl (\<lambda>d i. dict_set d (?key i) (?val i)) [] xs"
  have r: "get_intents r = Inr ?d"
    using assms by (simp add: get_intents_def)
  note f = fold_dict_set [of ?key ?val xs]
  have dist: "distinct (map fst ?d)" using f by blast
  have keys: "set (map fst ?d) = ?key ` set xs" using f by blast
  have len: "length ?d = card (?key ` set xs)"
    using dist keys distinct_card [of "map fst ?d"] by simp
  have le: "length ?d \<le> length xs"
    unfolding len using card_length [of "map ?key xs"] by simp
  have lt: "\<not> distinct (map ?key xs) \<longrightarrow> length ?d < length xs"
  proof
    assume nd: "\<not> distinct (map ?key xs)"
    have "card (set (map ?key xs)) \<noteq> length (map ?key xs)"
      using nd card_distinct [of "map ?key xs"] by blast
    with le len show "length ?d < length xs" by simp
  qed
  from r dist keys le lt f show ?thesis by blast
qed

text \<open>The names \<^verbatim>\<open>a.b\<close> and \<^verbatim>\<open>a b\<close> both normalize to \<^verbatim>\<open>a_b\<close>; the second score stays.\<close>

theorem get_intents_last_wins_witness:
  "get_intents \<lparr>intents = Some [\<lparr>intent = ''a.b'', score = Some (1/10 :: rat)\<rparr>,
                                \<lparr>intent = ''a b'', score = Some (2/10)\<rparr>],
                top_scoring_intent = None\<rparr>
     = Inr [(''a_b'', IntentScore (2/10))]"
  using get_intents_last_wins
    [of "\<lparr>intents = Some [\<lparr>intent = ''a.b'', score = Some (1/10 :: rat)\<rparr>,
                          \<lparr>intent = ''a b'', score = Some (2/10)\<rparr>],
          top_scoring_intent = None\<rparr>"
        "[\<lparr>intent = ''a.b'', score = Some (1/10 :: rat)\<rparr>, \<lparr>intent = ''a b'', score = Some (2/10)\<rparr>]"]
  by (simp add: get_intents_def normalized_intent_def replace_def score_or_0_def)

section \<open>The normalized entity name\<close>

lemma startswith_append: "startswith s (p @ q) \<Longrightarrow> startswith s p"
proof -
  assume "startswith s (p @ q)"
  then have "take (length p + length q) s = p @ q" by (simp add: startswith_def)
  then have "take (length p) (take (length p + length q) s) = take (length p) (p @ q)" by simp
  then show ?thesis by (simp add: startswith_def min_def)
qed

lemma startswith_set: "startswith s p \<Longrightarrow> set p \<subseteq> set s"
  unfolding startswith_def by (metis set_take_subset)

lemma split_last_no_sep: "sep \<notin> set (split_last sep s)"
  by (induction s) auto

lemma split_last_id: "sep \<notin> set s \<Longrightarrow> split_last sep s = s"
  by (induction s) auto

lemma underscores_chars: "CHR ''.'' \<notin> set (underscores t) \<and> CHR '' '' \<notin> set (underscores t)"
  by (auto simp: underscores_def replace_def)

lemma underscores_id: "CHR ''.'' \<notin> set t \<Longrightarrow> CHR '' '' \<notin> set t \<Longrightarrow> underscores t = t"
  by (induction t) (auto simp: underscores_def replace_def)

lemma underscores_colon: "CHR '':'' \<notin> set t \<Longrightarrow> CHR '':'' \<notin> set (underscores t)"
  by (auto simp: underscores_def replace_def)

text \<open>The code as the steps, in the code's order.\<close>

lemma name_as_steps:
  assumes "role_of e = None \<or> (\<exists>r. role_of e = Some (PStr r))"
  shows "extract_normalized_entity_name B e = Inr (name_in_code_order (type e) (role_string e))"
proof -
  let ?t = "strip_builtin (collapse_currency (collapse_datetimeV2 (strip_role_qualifier (type e))))"
  from assms show ?thesis
  proof
    assume n: "role_of e = None"
    then have "role_string e = None" by (simp add: role_string_def)
    moreover have "extract_normalized_entity_name B e = Inr (underscores ?t)"
      using n by (auto simp: extract_normalized_entity_name_def role_of_def Let_def truthy_def
          rbind_def underscores_def strip_builtin_def collapse_currency_def collapse_datetimeV2_def
          strip_role_qualifier_def split: option.splits)
    ultimately show ?thesis by (simp add: name_in_code_order_def role_replaces_def)
  next
    assume "\<exists>r. role_of e = Some (PStr r)"
    then obtain r where r: "role_of e = Some (PStr r)" by blast
    then have rs: "role_string e = Some r" by (simp add: role_string_def)
    have "extract_normalized_entity_name B e = Inr (underscores (if r \<noteq> [] \<and> \<not> isspace r then r else ?t))"
      using r by (auto simp: extract_normalized_entity_name_def role_of_def Let_def truthy_def
          rbind_def underscores_def strip_builtin_def collapse_currency_def collapse_datetimeV2_def
          strip_role_qualifier_def split: option.splits)
    with rs show ?thesis by (simp add: name_in_code_order_def role_replaces_def)
  qed
qed

lemma orders_agree:
  assumes "\<forall>r. role = Some r \<longrightarrow> \<not> startswith r ''builtin.''"
  shows "name_in_code_order t role = name_in_spec_order t role"
proof (cases "\<exists>r. role = Some r \<and> r \<noteq> [] \<and> \<not> isspace r")
  case True
  then obtain r where r: "role = Some r" "r \<noteq> []" "\<not> isspace r" by blast
  with assms have nb: "\<not> startswith r ''builtin.''" by blast
  have "\<not> startswith r (''builtin.'' @ ''datetimeV2.'')" "\<not> startswith r (''builtin.'' @ ''currency'')"
    using nb startswith_append by blast+
  then have "strip_builtin (collapse_currency (collapse_datetimeV2 r)) = r"
    using nb by (simp add: strip_builtin_def collapse_currency_def collapse_datetimeV2_def)
  with r show ?thesis by (simp add: name_in_code_order_def name_in_spec_order_def role_replaces_def)
next
  case False
  then have "\<And>u. role_replaces role u = u"
    by (auto simp: role_replaces_def split: option.splits)
  then show ?thesis by (simp add: name_in_code_order_def name_in_spec_order_def)
qed

lemma name_is_underscored:
  assumes "extract_normalized_entity_name B e = Inr n"
  shows "\<exists>u. n = underscores u"
  using assms
  by (auto simp: extract_normalized_entity_name_def Let_def rbind_def underscores_def
      split: sum.splits if_splits)

lemma type_steps_no_colon:
  "CHR '':'' \<notin> set (strip_builtin (collapse_currency (collapse_datetimeV2 (strip_role_qualifier t))))"
proof -
  have a: "CHR '':'' \<notin> set (strip_role_qualifier t)"
    by (simp add: strip_role_qualifier_def split_last_no_sep)
  then have b: "CHR '':'' \<notin> set (collapse_currency (collapse_datetimeV2 (strip_role_qualifier t)))"
    by (simp add: collapse_currency_def collapse_datetimeV2_def)
  then show ?thesis
    by (auto simp: strip_builtin_def dest: in_set_dropD)
qed

lemma fixed_point_as_type:
  assumes n: "n = underscores u" and c: "CHR '':'' \<notin> set n"
  shows "name_in_code_order n None = n"
proof -
  have dot: "CHR ''.'' \<notin> set n" and sp: "CHR '' '' \<notin> set n"
    using n underscores_chars [of u] by simp_all
  have s1: "strip_role_qualifier n = n"
    using c by (simp add: strip_role_qualifier_def split_last_id)
  have nb: "\<not> startswith n ''builtin.''"
    using dot startswith_set [of n "''builtin.''"] by auto
  have "\<not> startswith n (''builtin.'' @ ''datetimeV2.'')" "\<not> startswith n (''builtin.'' @ ''currency'')"
    using nb startswith_append by blast+
  then have "strip_builtin (collapse_currency (collapse_datetimeV2 n)) = n"
    using nb by (simp add: strip_builtin_def collapse_currency_def collapse_datetimeV2_def)
  with s1 dot sp show ?thesis
    by (simp add: name_in_code_order_def role_replaces_def underscores_id)
qed

text \<open>
  Claim C2 lists the steps with the role replacing the type second. The code applies the
  role after the datetimeV2, currency and builtin steps, so a role is never collapsed or
  stripped: the role \<^verbatim>\<open>builtin.number\<close> gives \<^verbatim>\<open>builtin_number\<close>, where the steps in the
  claim's order give \<^verbatim>\<open>number\<close>.
\<close>

theorem normalized_name_spec_order_counterexample:
  "extract_normalized_entity_name example_builtins
     \<lparr>type = ''city'', entity = ''x'', start_index = 0, end_index = 0,
      additional_properties = Some [(''role'', PStr ''builtin.number'')]\<rparr>
     = Inr ''builtin_number'' \<and>
   name_in_spec_order
     (type \<lparr>type = ''city'', entity = ''x'', start_index = 0, end_index = 0,
            additional_properties = Some [(''role'', PStr ''builtin.number'') :: string \<times> string pyval]\<rparr>)
     (role_string \<lparr>type = ''city'', entity = ''x'', start_index = 0, end_index = 0,
            additional_properties = Some [(''role'', PStr ''builtin.number'') :: string \<times> string pyval]\<rparr>)
     = ''number''"
  by (simp add: extract_normalized_entity_name_def name_in_spec_order_def startswith_def
      truthy_def isspace_def is_space_def rbind_def replace_def underscores_def strip_builtin_def
      collapse_currency_def collapse_datetimeV2_def role_replaces_def strip_role_qualifier_def
      role_string_def role_of_def)

text \<open>
  Claim C2, amended. For every entity whose role is absent or a string,
  \<^verbatim>\<open>extract_normalized_entity_name\<close> is the result of the steps in this order: (1) keep what
  follows the last \<^verbatim>\<open>:\<close> of the type; (3) \<^verbatim>\<open>builtin.datetimeV2.*\<close> becomes \<^verbatim>\<open>datetime\<close>;
  (4) \<^verbatim>\<open>builtin.currency*\<close> becomes \<^verbatim>\<open>money\<close>; (5) a remaining \<^verbatim>\<open>builtin.\<close> prefix is
  stripped; (2) a role that is neither empty nor whitespace replaces the result; (6) every
  \<^verbatim>\<open>.\<close> and space becomes \<^verbatim>\<open>_\<close>. When the role does not start with \<^verbatim>\<open>builtin.\<close> this is also
  the result of the steps in the order (1) to (6).
\<close>

theorem normalized_name_code_order:
  assumes "role_of e = None \<or> (\<exists>r. role_of e = Some (PStr r))"
  shows "extract_normalized_entity_name B e = Inr (name_in_code_order (type e) (role_string e)) \<and>
         ((\<forall>r. role_string e = Some r \<longrightarrow> \<not> startswith r ''builtin.'') \<longrightarrow>
            extract_normalized_entity_name B e = Inr (name_in_spec_order (type e) (role_string e)))"
  using name_as_steps [OF assms] orders_agree [of "role_string e" "type e"] by simp

theorem normalized_name_code_order_witness:
  "extract_normalized_entity_name example_builtins
     \<lparr>type = ''builtin.geography.city'', entity = ''x'', start_index = 0, end_index = 0,
      additional_properties = Some [(''role'', PStr ''destination city'')]\<rparr>
   = Inr ''destination_city''"
  using normalized_name_code_order
    [of "\<lparr>type = ''builtin.geography.city'', entity = ''x'', start_index = 0, end_index = 0,
          additional_properties = Some [(''role'', PStr ''destination city'')]\<rparr>" example_builtins]
  by (simp add: role_of_def role_string_def name_in_code_order_def role_replaces_def
      underscores_def replace_def isspace_def is_space_def)

text \<open>
  Claim C9 says that every output of the normalizer is returned unchanged when it is
  normalized again. A role is taken as it is, so an output can contain a \<^verbatim>\<open>:\<close>; normalized
  again, as the type of an entity, it loses what precedes the \<^verbatim>\<open>:\<close>.
\<close>

theorem normalized_name_idempotent_counterexample:
  "extract_normalized_entity_name example_builtins
     \<lparr>type = ''city'', entity = ''x'', start_index = 0, end_index = 0,
      additional_properties = Some [(''role'', PStr ''a:b'')]\<rparr> = Inr ''a:b'' \<and>
   extract_normalized_entity_name example_builtins
     \<lparr>type = ''a:b'', entity = ''x'', start_index = 0, end_index = 0,
      additional_properties = None\<rparr> = Inr ''b''"
  by (simp add: extract_normalized_entity_name_def startswith_def truthy_def isspace_def
      is_space_def rbind_def replace_def)

text \<open>
  Claim C9, amended. An output of the normalizer that contains no \<^verbatim>\<open>:\<close> is returned
  unchanged when it is normalized again as the type of an entity without a role; and an
  output contains no \<^verbatim>\<open>:\<close> whenever the entity it came from has no role, or an empty or
  whitespace role.
\<close>

theorem normalized_name_fixed_point:
  assumes "extract_normalized_entity_name B e = Inr n"
    and "type e' = n" and "role_of e' = None"
  shows "((role_of e = None \<or> (\<exists>r. role_of e = Some (PStr r) \<and> (r = [] \<or> isspace r)))
            \<longrightarrow> CHR '':'' \<notin> set n) \<and>
         (CHR '':'' \<notin> set n \<longrightarrow> extract_normalized_entity_name B e' = Inr n)"
proof (intro conjI impI)
  assume r: "role_of e = None \<or> (\<exists>r. role_of e = Some (PStr r) \<and> (r = [] \<or> isspace r))"
  then have "role_of e = None \<or> (\<exists>r. role_of e = Some (PStr r))" by blast
  from name_as_steps [OF this, of B] assms(1)
  have n: "n = name_in_code_order (type e) (role_string e)" by simp
  have "role_replaces (role_string e) = (\<lambda>t. t)"
    using r by (auto simp: role_replaces_def role_string_def fun_eq_iff)
  with n show "CHR '':'' \<notin> set n"
    by (simp add: name_in_code_order_def underscores_colon type_steps_no_colon)
next
  assume c: "CHR '':'' \<notin> set n"
  from name_is_underscored [OF assms(1)] obtain u where u: "n = underscores u" by blast
  have "extract_normalized_entity_name B e' = Inr (name_in_code_order (type e') (role_string e'))"
    using assms(3) by (intro name_as_steps) simp
  moreover have "role_string e' = None" using assms(3) by (simp add: role_string_def)
  ultimately show "extract_normalized_entity_name B e' = Inr n"
    using fixed_point_as_type [OF u c] assms(2) by simp
qed

theorem normalized_name_fixed_point_witness:
  "extract_normalized_entity_name example_builtins
     \<lparr>type = ''builtin.geography.city'', entity = ''x'', start_index = 0, end_index = 0,
      additional_properties = None\<rparr> = Inr ''geography_city'' \<and>
   extract_normalized_entity_name example_builtins
     \<lparr>type = ''geography_city'', entity = ''y'', start_index = 3, end_index = 4,
      additional_properties = None\<rparr> = Inr ''geography_city''"
  using normalized_name_fixed_point
    [of example_builtins
        "\<lparr>type = ''builtin.geography.city'', entity = ''x'', start_index = 0, end_index = 0,
          additional_properties = None\<rparr>"
        "''geography_city''"
        "\<lparr>type = ''geography_city'', entity = ''y'', start_index = 3, end_index = 4,
          additional_properties = None\<rparr>"]
  by (simp add: extract_normalized_entity_name_def startswith_def truthy_def isspace_def
      is_space_def rbind_def replace_def role_of_def)

section \<open>The accumulation of the flat entities\<close>

lemma rbind_Inr_iff: "rbind m f = Inr y \<longleftrightarrow> (\<exists>x. m = Inr x \<and> f x = Inr y)"
  by (cases m) (simp_all add: rbind_def)

lemma rbind_simps [simp]: "rbind (Inr x) f = f x" "rbind (Inl err) f = Inl err"
  by (simp_all add: rbind_def)

lemma add_property_absent:
  "map_of obj k = None \<Longrightarrow> add_property obj k v = Inr (dict_set obj k (PList [v]))"
  by (simp add: add_property_def)

lemma add_property_present:
  "map_of obj k = Some (PList xs) \<Longrightarrow> add_property obj k v = Inr (dict_set obj k (PList (xs @ [v])))"
  by (simp add: add_property_def)

lemma add_property_other:
  "map_of obj k = Some x \<Longrightarrow> \<forall>xs. x \<noteq> PList xs \<Longrightarrow> add_property obj k v = Inl AttributeError"
  by (cases x) (simp_all add: add_property_def)

lemma flat_pass_append:
  "flat_pass B v T (xs @ ys) out = rbind (flat_pass B v T xs out) (flat_pass B v T ys)"
  by (induction xs arbitrary: out) (auto simp: rbind_def split: sum.splits)

lemma flat_pass_snoc:
  "flat_pass B v {} (es @ [e]) out = rbind (flat_pass B v {} es out) (\<lambda>out. add_entity B v out e)"
proof -
  have "flat_pass B v {} [e] = (\<lambda>out. add_entity B v out e)"
    by (auto simp: fun_eq_iff rbind_def split: sum.splits)
  then show ?thesis by (simp add: flat_pass_append)
qed


lemma filter_named_none: "\<not> list_ex (named B k) es \<Longrightarrow> filter (named B k) es = []"
  by (auto simp: list_ex_iff filter_empty_conv)

lemma accumulate_step:
  assumes hv: "holds f B X es out"
    and n: "extract_normalized_entity_name B e = Inr n" and val: "f e = Inr x"
    and nX: "n \<notin> X"
  shows "add_property out n x
           = Inr (dict_set out n (PList (map (\<lambda>e. projr (f e)) (filter (named B n) es) @ [x])))"
    and "holds f B X (es @ [e])
           (dict_set out n (PList (map (\<lambda>e. projr (f e)) (filter (named B n) es) @ [x])))"
proof -
  let ?old = "map (\<lambda>e. projr (f e)) (filter (named B n) es)"
  show "add_property out n x = Inr (dict_set out n (PList (?old @ [x])))"
  proof (cases "list_ex (named B n) es")
    case True
    with hv nX have "map_of out n = Some (PList ?old)" by (simp add: holds_def)
    then show ?thesis by (rule add_property_present)
  next
    case False
    with hv nX have "map_of out n = None" by (simp add: holds_def)
    then show ?thesis using False by (simp add: add_property_absent filter_named_none)
  qed
  show "holds f B X (es @ [e]) (dict_set out n (PList (?old @ [x])))"
    unfolding holds_def
  proof (intro allI impI)
    fix k assume k: "k \<notin> X"
    show "map_of (dict_set out n (PList (?old @ [x]))) k
            = (if list_ex (named B k) (es @ [e])
               then Some (PList (map (\<lambda>e. projr (f e)) (filter (named B k) (es @ [e])))) else None)"
    proof (cases "k = n")
      case True
      then show ?thesis using n val
        by (simp add: map_of_dict_set named_def)
    next
      case False
      then have "\<not> named B k e" using n by (auto simp: named_def)
      then show ?thesis using False hv k
        by (simp add: map_of_dict_set holds_def)
    qed
  qed
qed

lemma add_entity_plain:
  assumes inv: "accumulated B False es out"
  shows "case add_entity B False out e of
           Inl _ \<Rightarrow> \<not> extracts B False e
         | Inr out' \<Rightarrow> extracts B False e \<and> accumulated B False (es @ [e]) out'"
proof (cases "extract_normalized_entity_name B e")
  case (Inl a)
  then show ?thesis by (simp add: add_entity_def extracts_def)
next
  case n: (Inr n)
  show ?thesis
  proof (cases "extract_entity_value B e")
    case (Inl a)
    then show ?thesis using n by (simp add: add_entity_def extracts_def)
  next
    case x: (Inr x)
    from inv have h: "holds (extract_entity_value B) B {} es out" by (simp add: accumulated_def)
    note s = accumulate_step [OF h n x, simplified]
    show ?thesis using n x s by (simp add: add_entity_def extracts_def accumulated_def)
  qed
qed

lemma add_entity_verbose:
  assumes inv: "accumulated B True es out"
  shows "case add_entity B True out e of
           Inl _ \<Rightarrow> \<not> extracts B True e
         | Inr out' \<Rightarrow> extracts B True e \<and> accumulated B True (es @ [e]) out'"
proof (cases "extract_normalized_entity_name B e")
  case (Inl a)
  then show ?thesis by (simp add: add_entity_def extracts_def)
next
  case n: (Inr n)
  from inv obtain m where h: "holds (extract_entity_value B) B {''$instance''} es out"
    and m: "map_of out ''$instance'' = Some (PDict m)"
    and hm: "holds (extract_entity_metadata B) B {} es m"
    by (auto simp: accumulated_def)
  show ?thesis
  proof (cases "extract_entity_value B e")
    case (Inl a)
    then show ?thesis using n by (simp add: add_entity_def extracts_def)
  next
    case x: (Inr x)
    show ?thesis
    proof (cases "n = ''$instance''")
      case True
      have "add_property out ''$instance'' x = Inl AttributeError"
        using m by (intro add_property_other) auto
      then show ?thesis using n x True by (simp add: add_entity_def extracts_def)
    next
      case ni: False
      let ?o1 = "dict_set out n (PList (map (\<lambda>e. projr (extract_entity_value B e)) (filter (named B n) es) @ [x]))"
      have a1: "add_property out n x = Inr ?o1" and h1: "holds (extract_entity_value B) B {''$instance''} (es @ [e]) ?o1"
        using accumulate_step [OF h n x] ni by simp_all
      have m1: "map_of ?o1 ''$instance'' = Some (PDict m)"
        using m ni by (simp add: map_of_dict_set)
      show ?thesis
      proof (cases "extract_entity_metadata B e")
        case (Inl a)
        then show ?thesis using n x a1 by (simp add: add_entity_def extracts_def)
      next
        case md: (Inr md)
        let ?m1 = "dict_set m n (PList (map (\<lambda>e. projr (extract_entity_metadata B e)) (filter (named B n) es) @ [md]))"
        have a2: "add_property m n md = Inr ?m1" and h2: "holds (extract_entity_metadata B) B {} (es @ [e]) ?m1"
          using accumulate_step [OF hm n md] by simp_all
        have r: "add_entity B True out e = Inr (dict_set ?o1 ''$instance'' (PDict ?m1))"
          using n x a1 md m1 a2 by (simp add: add_entity_def add_metadata_property_def)
        have "holds (extract_entity_value B) B {''$instance''} (es @ [e]) (dict_set ?o1 ''$instance'' (PDict ?m1))"
          using h1 by (simp add: holds_def map_of_dict_set)
        moreover have "map_of (dict_set ?o1 ''$instance'' (PDict ?m1)) ''$instance'' = Some (PDict ?m1)"
          by (simp add: map_of_dict_set)
        ultimately have "accumulated B True (es @ [e]) (dict_set ?o1 ''$instance'' (PDict ?m1))"
          using h2 by (auto simp: accumulated_def)
        then show ?thesis using r n x md ni by (simp add: extracts_def)
      qed
    qed
  qed
qed

lemma add_entity_step:
  assumes "accumulated B v es out"
  shows "case add_entity B v out e of
           Inl _ \<Rightarrow> \<not> extracts B v e
         | Inr out' \<Rightarrow> extracts B v e \<and> accumulated B v (es @ [e]) out'"
proof (cases v)
  case True
  then have v: "v = True" by simp
  show ?thesis using assms unfolding v by (rule add_entity_verbose)
next
  case False
  then have v: "v = False" by simp
  show ?thesis using assms unfolding v by (rule add_entity_plain)
qed

lemma accumulated_initial:
  "accumulated B v [] (if v then [(''$instance'', PDict [])] else [])"
  by (simp add: accumulated_def holds_def)

lemma flat_pass_accumulates:
  "case flat_pass B v {} es (if v then [(''$instance'', PDict [])] else []) of
     Inl _ \<Rightarrow> \<not> (\<forall>e\<in>set es. extracts B v e)
   | Inr out \<Rightarrow> (\<forall>e\<in>set es. extracts B v e) \<and> accumulated B v es out"
proof (induction es rule: rev_induct)
  case Nil
  show ?case using accumulated_initial [of B v] by simp
next
  case (snoc e es)
  let ?init = "if v then [(''$instance'', PDict [])] else []"
  show ?case
  proof (cases "flat_pass B v {} es ?init")
    case (Inl a)
    with snoc show ?thesis by (simp add: flat_pass_snoc)
  next
    case (Inr out)
    with snoc have all: "\<forall>e\<in>set es. extracts B v e" and acc: "accumulated B v es out" by simp_all
    from add_entity_step [OF acc, of e] all Inr show ?thesis
      by (auto simp: flat_pass_snoc split: sum.splits)
  qed
qed

lemma extract_no_composites:
  assumes "ces = None \<or> ces = Some []"
  shows "extract_entities_and_metadata B es ces verbose
           = flat_pass B verbose {} es (if verbose then [(''$instance'', PDict [])] else [])"
  using assms by (auto simp: extract_entities_and_metadata_def)

lemma values_under_nonempty: "list_ex (named B k) es \<Longrightarrow> values_under B k es \<noteq> []"
  by (auto simp: values_under_def list_ex_iff filter_empty_conv)

lemma no_composites_example:
  "extract_entities_and_metadata example_builtins
     [\<lparr>type = ''city'', entity = ''paris'', start_index = 5, end_index = 9,
       additional_properties = None\<rparr>,
      \<lparr>type = ''builtin.number'', entity = ''two'', start_index = 11, end_index = 13,
       additional_properties = Some [(''resolution'', PDict [(''value'', PStr ''2'')])]\<rparr>,
      \<lparr>type = ''city'', entity = ''rome'', start_index = 18, end_index = 21,
       additional_properties = None\<rparr>]
     None False
   = Inr [(''city'', PList [PStr ''paris'', PStr ''rome'']), (''number'', PList [PInt 2])]"
  by code_simp

text \<open>
  Claim C5 says that for every entity list with no composites each entity contributes one
  value to the output mapping. An entity whose value cannot be extracted makes the whole
  call raise, and there is no output mapping: here the resolution of a \<^verbatim>\<open>builtin.number\<close>
  is no number, and the \<^verbatim>\<open>ValueError\<close> of the coercer reaches the caller.
\<close>

theorem flat_entities_accumulate_counterexample:
  "extract_entities_and_metadata example_builtins
     [\<lparr>type = ''builtin.number'', entity = ''abc'', start_index = 0, end_index = 2,
       additional_properties = Some [(''resolution'', PDict [(''value'', PStr ''abc'')])]\<rparr>]
     None False
   = Inl ValueError"
  by code_simp

text \<open>
  Claim C5, amended. \<^verbatim>\<open>add_property\<close> inserts a singleton list when the key is absent and
  appends to the list when the key holds one. For an entity list with no composites
  \<^verbatim>\<open>extract_entities_and_metadata\<close> returns a mapping exactly when the extraction of every
  entity succeeds (its name and value, in verbose mode also its metadata, are computed
  without an exception, and in verbose mode its name is not \<^verbatim>\<open>$instance\<close>). The mapping
  then has, under every normalized name (in verbose mode: other than \<^verbatim>\<open>$instance\<close>), the
  list of the values of the entities with that name, one value for each, in the order of
  the input list; the list is never empty and a name no entity has is not a key. In verbose
  mode \<^verbatim>\<open>$instance\<close> holds the dictionary of the metadata lists, built the same way.
\<close>

theorem flat_entities_accumulate:
  assumes "ces = None \<or> ces = Some []"
  shows "(map_of obj key = None \<longrightarrow> add_property obj key x = Inr (dict_set obj key (PList [x]))) \<and>
         (\<forall>xs. map_of obj key = Some (PList xs) \<longrightarrow>
                add_property obj key x = Inr (dict_set obj key (PList (xs @ [x])))) \<and>
         ((\<exists>out. extract_entities_and_metadata B es ces verbose = Inr out)
            \<longleftrightarrow> (\<forall>e\<in>set es. extracts B verbose e)) \<and>
         (\<forall>out. extract_entities_and_metadata B es ces verbose = Inr out \<longrightarrow>
            (\<forall>k. (verbose \<longrightarrow> k \<noteq> ''$instance'') \<longrightarrow>
               map_of out k = (if list_ex (named B k) es
                               then Some (PList (values_under B k es)) else None)) \<and>
            (\<forall>k. list_ex (named B k) es \<longrightarrow> values_under B k es \<noteq> []) \<and>
            (verbose \<longrightarrow>
               (\<exists>m. map_of out ''$instance'' = Some (PDict m) \<and>
                  (\<forall>k. map_of m k = (if list_ex (named B k) es
                                      then Some (PList (metadata_under B k es)) else None)))))"
proof -
  let ?r = "extract_entities_and_metadata B es ces verbose"
  have flat: "?r = flat_pass B verbose {} es (if verbose then [(''$instance'', PDict [])] else [])"
    using assms by (rule extract_no_composites)
  note acc = flat_pass_accumulates [where B = B and v = verbose and es = es, folded flat]
  have ret: "(\<exists>out. ?r = Inr out) \<longleftrightarrow> (\<forall>e\<in>set es. extracts B verbose e)"
    using acc by (cases ?r) auto
  have shape: "\<forall>out. ?r = Inr out \<longrightarrow>
            (\<forall>k. (verbose \<longrightarrow> k \<noteq> ''$instance'') \<longrightarrow>
               map_of out k = (if list_ex (named B k) es
                               then Some (PList (values_under B k es)) else None)) \<and>
            (\<forall>k. list_ex (named B k) es \<longrightarrow> values_under B k es \<noteq> []) \<and>
            (verbose \<longrightarrow>
               (\<exists>m. map_of out ''$instance'' = Some (PDict m) \<and>
                  (\<forall>k. map_of m k = (if list_ex (named B k) es
                                      then Some (PList (metadata_under B k es)) else None))))"
  proof (intro allI impI)
    fix out assume "?r = Inr out"
    with acc have a: "accumulated B verbose es out" by simp
    show "(\<forall>k. (verbose \<longrightarrow> k \<noteq> ''$instance'') \<longrightarrow>
               map_of out k = (if list_ex (named B k) es
                               then Some (PList (values_under B k es)) else None)) \<and>
            (\<forall>k. list_ex (named B k) es \<longrightarrow> values_under B k es \<noteq> []) \<and>
            (verbose \<longrightarrow>
               (\<exists>m. map_of out ''$instance'' = Some (PDict m) \<and>
                  (\<forall>k. map_of m k = (if list_ex (named B k) es
                                      then Some (PList (metadata_under B k es)) else None))))"
    proof (cases verbose)
      case True
      with a show ?thesis
        by (auto simp: accumulated_def holds_def values_under_def metadata_under_def
            list_ex_iff filter_empty_conv)
    next
      case False
      with a show ?thesis
        by (auto simp: accumulated_def holds_def values_under_def list_ex_iff filter_empty_conv)
    qed
  qed
  have absent: "map_of obj key = None \<longrightarrow> add_property obj key x = Inr (dict_set obj key (PList [x]))"
    by (simp add: add_property_absent)
  have present: "\<forall>xs. map_of obj key = Some (PList xs) \<longrightarrow>
                add_property obj key x = Inr (dict_set obj key (PList (xs @ [x])))"
    by (simp add: add_property_present)
  from absent present ret shape show ?thesis
    by (intro conjI) assumption+
qed

theorem flat_entities_accumulate_witness:
  "extract_entities_and_metadata example_builtins
     [\<lparr>type = ''city'', entity = ''paris'', start_index = 5, end_index = 9,
       additional_properties = None\<rparr>,
      \<lparr>type = ''builtin.number'', entity = ''two'', start_index = 11, end_index = 13,
       additional_properties = Some [(''resolution'', PDict [(''value'', PStr ''2'')])]\<rparr>,
      \<lparr>type = ''city'', entity = ''rome'', start_index = 18, end_index = 21,
       additional_properties = None\<rparr>]
     None False
   = Inr [(''city'', PList [PStr ''paris'', PStr ''rome'']), (''number'', PList [PInt 2])]"
  using flat_entities_accumulate
    [where ces = None and B = example_builtins and verbose = False and es =
       "[\<lparr>type = ''city'', entity = ''paris'', start_index = 5, end_index = 9,
          additional_properties = None\<rparr>,
         \<lparr>type = ''builtin.number'', entity = ''two'', start_index = 11, end_index = 13,
          additional_properties = Some [(''resolution'', PDict [(''value'', PStr ''2'')])]\<rparr>,
         \<lparr>type = ''city'', entity = ''rome'', start_index = 18, end_index = 21,
          additional_properties = None\<rparr>]"]
  by (simp add: no_composites_example)

section \<open>The children of a composite\<close>

lemma in_list_iff: "in_list B e xs \<longleftrightarrow> (\<exists>y\<in>set xs. y = e \<or> entity_eq B y e)"
  by (simp add: in_list_def list_ex_iff)

lemma in_list_member: "e \<in> set xs \<Longrightarrow> in_list B e xs"
  by (auto simp: in_list_iff)

lemma in_list_append: "in_list B e (xs @ ys) \<longleftrightarrow> in_list B e xs \<or> in_list B e ys"
  by (auto simp: in_list_iff)

lemma in_list_Nil [simp]: "\<not> in_list B e []"
  by (simp add: in_list_iff)

lemma in_list_fields:
  assumes "in_list B e xs"
  shows "\<exists>y\<in>set xs. type y = type e \<and> start_index y = start_index e \<and> end_index y = end_index e"
  using assms by (auto simp: in_list_iff entity_eq_def)

lemma no_repeats_from_append:
  "no_repeats_from B seen (xs @ ys) \<longleftrightarrow> no_repeats_from B seen xs \<and> no_repeats_from B (seen @ xs) ys"
  by (induction xs arbitrary: seen) auto

lemma collect_child_covers:
  assumes "collect_child B v meta c es (cov, ch) = Inr (cov', ch')"
  shows "\<exists>new. cov' = cov @ new \<and>
           set new \<subseteq> {e \<in> set es. child_type c = type e \<and> composite_contains_entity meta e} \<and>
           (\<forall>e\<in>set es. child_type c = type e \<and> composite_contains_entity meta e \<longrightarrow> in_list B e cov') \<and>
           no_repeats_from B cov new \<and>
           flat_pass B v {} new ch = Inr ch'"
  using assms
proof (induction es arbitrary: cov ch)
  case Nil
  then show ?case by simp
next
  case (Cons e es)
  show ?case
  proof (cases "in_list B e cov \<or> child_type c \<noteq> type e \<or> \<not> composite_contains_entity meta e")
    case True
    with Cons.prems have "collect_child B v meta c es (cov, ch) = Inr (cov', ch')"
      by (auto split: if_splits)
    from Cons.IH [OF this] obtain new where new: "cov' = cov @ new"
      "set new \<subseteq> {e \<in> set es. child_type c = type e \<and> composite_contains_entity meta e}"
      "\<forall>e\<in>set es. child_type c = type e \<and> composite_contains_entity meta e \<longrightarrow> in_list B e cov'"
      "no_repeats_from B cov new"
      "flat_pass B v {} new ch = Inr ch'" by blast
    have 2: "set new \<subseteq> {x \<in> set (e # es). child_type c = type x \<and> composite_contains_entity meta x}"
      using new(2) by auto
    have 3: "\<forall>x\<in>set (e # es). child_type c = type x \<and> composite_contains_entity meta x \<longrightarrow> in_list B x cov'"
      using new(1,3) True by (auto simp: in_list_append)
    from new(1) 2 3 new(4,5) show ?thesis by blast
  next
    case False
    with Cons.prems obtain ch1 where a: "add_entity B v ch e = Inr ch1"
      and r: "collect_child B v meta c es (cov @ [e], ch1) = Inr (cov', ch')"
      by (auto simp: rbind_Inr_iff split: if_splits)
    from Cons.IH [OF r] obtain new where new: "cov' = (cov @ [e]) @ new"
      "set new \<subseteq> {e \<in> set es. child_type c = type e \<and> composite_contains_entity meta e}"
      "\<forall>e\<in>set es. child_type c = type e \<and> composite_contains_entity meta e \<longrightarrow> in_list B e cov'"
      "no_repeats_from B (cov @ [e]) new"
      "flat_pass B v {} new ch1 = Inr ch'" by blast
    have 1: "cov' = cov @ (e # new)" using new(1) by simp
    have 2: "set (e # new) \<subseteq> {x \<in> set (e # es). child_type c = type x \<and> composite_contains_entity meta x}"
      using new(2) False by auto
    have "in_list B e cov'" unfolding 1 by (rule in_list_member) simp
    then have 3: "\<forall>x\<in>set (e # es). child_type c = type x \<and> composite_contains_entity meta x \<longrightarrow> in_list B x cov'"
      using new(3) by auto
    have 4: "no_repeats_from B cov (e # new)" using new(4) False by simp
    have 5: "flat_pass B v {} (e # new) ch = Inr ch'"
      using a new(5) by simp
    from 1 2 3 4 5 show ?thesis by blast
  qed
qed

lemma collect_children_covers:
  assumes "collect_children B v meta cs es (cov, ch) = Inr (cov', ch')"
  shows "\<exists>new. cov' = cov @ new \<and>
           set new \<subseteq> {e \<in> set es. list_ex (\<lambda>c. child_type c = type e) cs
                                   \<and> composite_contains_entity meta e} \<and>
           (\<forall>e\<in>set es. list_ex (\<lambda>c. child_type c = type e) cs \<and> composite_contains_entity meta e
                \<longrightarrow> in_list B e cov') \<and>
           no_repeats_from B cov new \<and>
           flat_pass B v {} new ch = Inr ch'"
  using assms
proof (induction cs arbitrary: cov ch)
  case Nil
  then show ?case by simp
next
  case (Cons c cs)
  from Cons.prems obtain cov1 ch1 where a: "collect_child B v meta c es (cov, ch) = Inr (cov1, ch1)"
    and r: "collect_children B v meta cs es (cov1, ch1) = Inr (cov', ch')"
    by (auto simp: rbind_Inr_iff)
  from collect_child_covers [OF a] obtain n1 where n1: "cov1 = cov @ n1"
    "set n1 \<subseteq> {e \<in> set es. child_type c = type e \<and> composite_contains_entity meta e}"
    "\<forall>e\<in>set es. child_type c = type e \<and> composite_contains_entity meta e \<longrightarrow> in_list B e cov1"
    "no_repeats_from B cov n1"
    "flat_pass B v {} n1 ch = Inr ch1" by blast
  from Cons.IH [OF r] obtain n2 where n2: "cov' = cov1 @ n2"
    "set n2 \<subseteq> {e \<in> set es. list_ex (\<lambda>c. child_type c = type e) cs
                                   \<and> composite_contains_entity meta e}"
    "\<forall>e\<in>set es. list_ex (\<lambda>c. child_type c = type e) cs \<and> composite_contains_entity meta e
                \<longrightarrow> in_list B e cov'"
    "no_repeats_from B cov1 n2"
    "flat_pass B v {} n2 ch1 = Inr ch'" by blast
  have 1: "cov' = cov @ (n1 @ n2)" using n1(1) n2(1) by simp
  have 2: "set (n1 @ n2) \<subseteq> {e \<in> set es. list_ex (\<lambda>c. child_type c = type e) (c # cs)
                                   \<and> composite_contains_entity meta e}"
    using n1(2) n2(2) by auto
  have 3: "\<forall>e\<in>set es. list_ex (\<lambda>c. child_type c = type e) (c # cs) \<and> composite_contains_entity meta e
                \<longrightarrow> in_list B e cov'"
    using n1(3) n2(1,3) by (auto simp: in_list_append)
  have 4: "no_repeats_from B cov (n1 @ n2)"
    using n1(1,4) n2(4) by (simp add: no_repeats_from_append)
  have 5: "flat_pass B v {} (n1 @ n2) ch = Inr ch'"
    using n1(5) n2(5) by (simp add: flat_pass_append)
  from 1 2 3 4 5 show ?case by blast
qed


lemma accumulated_values:
  assumes "accumulated B v es out"
  shows "\<forall>k. (v \<longrightarrow> k \<noteq> ''$instance'') \<longrightarrow>
           map_of out k = (if list_ex (named B k) es then Some (PList (values_under B k es)) else None)"
  using assms by (cases v) (auto simp: accumulated_def holds_def values_under_def)

lemma populate_found:
  assumes f: "find (\<lambda>e. type e = parent_type ce \<and> entity e = composite_value ce) entities = Some meta"
    and p: "populate_composite_entity_model B ce entities out verbose = Inr (rest, out')"
  shows "\<exists>md cov ch name o1.
           (if verbose then extract_entity_metadata B meta else Inr (PDict [])) = Inr md \<and>
           collect_children B verbose meta (children ce) entities
             ([], if verbose then [(''$instance'', PDict [])] else []) = Inr (cov, ch) \<and>
           extract_normalized_entity_name B meta = Inr name \<and>
           add_property out name (PDict ch) = Inr o1 \<and>
           (if verbose then add_metadata_property o1 name md else Inr o1) = Inr out' \<and>
           rest = filter (\<lambda>e. \<not> in_list B e cov) entities"
proof (cases verbose)
  case True
  with p f show ?thesis
    by (auto simp: populate_composite_entity_model_def rbind_Inr_iff)
next
  case False
  with p f show ?thesis
    by (auto simp: populate_composite_entity_model_def rbind_Inr_iff)
qed

lemma add_property_result:
  assumes "add_property obj k x = Inr obj'"
  shows "\<exists>prev. map_of obj' k = Some (PList (prev @ [x])) \<and> obj' = dict_set obj k (PList (prev @ [x]))"
proof (cases "map_of obj k")
  case None
  with assms have "obj' = dict_set obj k (PList ([] @ [x]))" by (simp add: add_property_def)
  then show ?thesis by (metis map_of_dict_set fun_upd_same)
next
  case (Some cur)
  with assms obtain xs where "cur = PList xs"
    by (cases cur) (simp_all add: add_property_def)
  with assms Some have "obj' = dict_set obj k (PList (xs @ [x]))" by (simp add: add_property_def)
  then show ?thesis by (metis map_of_dict_set fun_upd_same)
qed

lemma add_property_keeps:
  assumes "add_property obj k x = Inr obj'" and "map_of obj n = Some (PList vs)"
  shows "\<exists>vs'. map_of obj' n = Some (PList vs') \<and> set vs \<subseteq> set vs'"
proof (cases "n = k")
  case True
  with assms have "obj' = dict_set obj k (PList (vs @ [x]))" by (simp add: add_property_def)
  with True show ?thesis by (auto simp: map_of_dict_set)
next
  case False
  from add_property_result [OF assms(1)] obtain prev where "obj' = dict_set obj k (PList (prev @ [x]))"
    by blast
  with False assms(2) show ?thesis by (auto simp: map_of_dict_set)
qed

lemma add_metadata_property_keeps:
  assumes "add_metadata_property obj k md = Inr obj'" and "map_of obj n = Some (PList xs)"
  shows "map_of obj' n = Some (PList xs)"
proof -
  from assms(1) obtain m m' where m: "map_of obj ''$instance'' = Some (PDict m)"
    and o: "obj' = dict_set obj ''$instance'' (PDict m')"
    by (auto simp: add_metadata_property_def rbind_Inr_iff split: option.splits pyval.splits)
  from m assms(2) have "n \<noteq> ''$instance''" by auto
  with o assms(2) show ?thesis by (simp add: map_of_dict_set)
qed

lemma add_entity_parts:
  assumes "add_entity B v out e = Inr out'"
  shows "\<exists>n x o1. extract_normalized_entity_name B e = Inr n \<and> extract_entity_value B e = Inr x \<and>
           add_property out n x = Inr o1 \<and>
           (if v then \<exists>md. add_metadata_property o1 n md = Inr out' else out' = o1)"
  using assms by (cases v) (auto simp: add_entity_def rbind_Inr_iff)

lemma add_entity_adds:
  assumes "add_entity B v out e = Inr out'"
  shows "\<exists>n x vs. extract_normalized_entity_name B e = Inr n \<and> extract_entity_value B e = Inr x \<and>
           map_of out' n = Some (PList vs) \<and> x \<in> set vs"
proof -
  from add_entity_parts [OF assms] obtain n x o1 where
    n: "extract_normalized_entity_name B e = Inr n" and x: "extract_entity_value B e = Inr x"
    and a: "add_property out n x = Inr o1"
    and m: "if v then \<exists>md. add_metadata_property o1 n md = Inr out' else out' = o1" by blast
  from add_property_result [OF a] obtain prev where p: "map_of o1 n = Some (PList (prev @ [x]))" by blast
  have "map_of out' n = Some (PList (prev @ [x]))"
  proof (cases v)
    case True
    with m obtain md where "add_metadata_property o1 n md = Inr out'" by auto
    from add_metadata_property_keeps [OF this p] show ?thesis .
  next
    case False
    with m p show ?thesis by simp
  qed
  with n x show ?thesis by auto
qed

lemma add_entity_keeps:
  assumes "add_entity B v out e = Inr out'" and "map_of out k = Some (PList vs)"
  shows "\<exists>vs'. map_of out' k = Some (PList vs') \<and> set vs \<subseteq> set vs'"
proof -
  from add_entity_parts [OF assms(1)] obtain n x o1 where
    a: "add_property out n x = Inr o1"
    and m: "if v then \<exists>md. add_metadata_property o1 n md = Inr out' else out' = o1" by blast
  from add_property_keeps [OF a assms(2)] obtain vs' where p: "map_of o1 k = Some (PList vs')"
    and s: "set vs \<subseteq> set vs'" by blast
  have "map_of out' k = Some (PList vs')"
  proof (cases v)
    case True
    with m obtain md where "add_metadata_property o1 n md = Inr out'" by auto
    from add_metadata_property_keeps [OF this p] show ?thesis .
  next
    case False
    with m p show ?thesis by simp
  qed
  with s show ?thesis by blast
qed

lemma flat_pass_keeps:
  assumes "flat_pass B v T es out = Inr res" and "map_of out k = Some (PList vs)"
  shows "\<exists>vs'. map_of res k = Some (PList vs') \<and> set vs \<subseteq> set vs'"
  using assms
proof (induction es arbitrary: out vs)
  case Nil
  then show ?case by auto
next
  case (Cons a es)
  show ?case
  proof (cases "type a \<in> T")
    case True
    with Cons.prems have "flat_pass B v T es out = Inr res" by simp
    from Cons.IH [OF this Cons.prems(2)] show ?thesis .
  next
    case False
    with Cons.prems obtain o1 where a: "add_entity B v out a = Inr o1"
      and r: "flat_pass B v T es o1 = Inr res" by (auto simp: rbind_Inr_iff)
    from add_entity_keeps [OF a Cons.prems(2)] obtain vs1 where
      "map_of o1 k = Some (PList vs1)" "set vs \<subseteq> set vs1" by blast
    with Cons.IH [OF r, of vs1] show ?thesis by blast
  qed
qed

lemma flat_pass_contains:
  assumes "flat_pass B v T es out = Inr res" and "e \<in> set es" and "type e \<notin> T"
  shows "\<exists>n x vs. extract_normalized_entity_name B e = Inr n \<and> extract_entity_value B e = Inr x \<and>
           map_of res n = Some (PList vs) \<and> x \<in> set vs"
  using assms
proof (induction es arbitrary: out)
  case Nil
  then show ?case by simp
next
  case (Cons a es)
  show ?case
  proof (cases "type a \<in> T")
    case True
    with Cons.prems have r: "flat_pass B v T es out = Inr res" and "e \<in> set es" by auto
    from Cons.IH [OF r this(2) Cons.prems(3)] show ?thesis .
  next
    case False
    with Cons.prems obtain o1 where a: "add_entity B v out a = Inr o1"
      and r: "flat_pass B v T es o1 = Inr res" by (auto simp: rbind_Inr_iff)
    show ?thesis
    proof (cases "e = a")
      case True
      from add_entity_adds [OF a] True obtain n x vs where
        nx: "extract_normalized_entity_name B e = Inr n" "extract_entity_value B e = Inr x"
        and m: "map_of o1 n = Some (PList vs)" "x \<in> set vs" by blast
      from flat_pass_keeps [OF r m(1)] m(2) nx show ?thesis by blast
    next
      case False
      with Cons.prems have "e \<in> set es" by simp
      from Cons.IH [OF r this Cons.prems(3)] show ?thesis .
    qed
  qed
qed


lemma no_repeats_distinct:
  "no_repeats_from B seen xs \<Longrightarrow> distinct xs \<and> set xs \<inter> set seen = {}"
proof (induction xs arbitrary: seen)
  case Nil
  show ?case by simp
next
  case (Cons x xs)
  then have a: "\<not> in_list B x seen" and b: "no_repeats_from B (seen @ [x]) xs" by simp_all
  from Cons.IH [OF b] have "distinct xs" "set xs \<inter> set (seen @ [x]) = {}" by simp_all
  moreover from a have "x \<notin> set seen" using in_list_member by blast
  ultimately show ?case by auto
qed

lemma is_child_contains:
  "is_child ce meta e \<longleftrightarrow>
     list_ex (\<lambda>c. child_type c = type e) (children ce) \<and> composite_contains_entity meta e"
  by (auto simp: is_child_def composite_contains_entity_def)

lemma is_child_in_list:
  assumes "in_list B e cov" and "\<forall>y\<in>set cov. is_child ce meta y"
  shows "is_child ce meta e"
proof -
  from in_list_fields [OF assms(1)] obtain y where y: "y \<in> set cov" "type y = type e"
    "start_index y = start_index e" "end_index y = end_index e" by blast
  with assms(2) have "is_child ce meta y" by blast
  with y show ?thesis by (simp add: is_child_def)
qed

text \<open>
  The spec's scenario: the composite \<^verbatim>\<open>roomBooking\<close> spans the characters 0 to 19 (the
  half-open span [0,20)), one \<^verbatim>\<open>city\<close> lies at 2 to 5, inside, and one at 30 to 33, outside.
\<close>

lemma composite_example:
  "populate_composite_entity_model example_builtins
     \<lparr>parent_type = ''roomBooking'', composite_value = ''book a room in paris'',
      children = [\<lparr>child_type = ''city'', child_value = ''pari''\<rparr>]\<rparr>
     [\<lparr>type = ''roomBooking'', entity = ''book a room in paris'', start_index = 0,
       end_index = 19, additional_properties = None\<rparr>,
      \<lparr>type = ''city'', entity = ''pari'', start_index = 2, end_index = 5,
       additional_properties = None\<rparr>,
      \<lparr>type = ''city'', entity = ''rome'', start_index = 30, end_index = 33,
       additional_properties = None\<rparr>]
     [] False
   = Inr ([\<lparr>type = ''roomBooking'', entity = ''book a room in paris'', start_index = 0,
       end_index = 19, additional_properties = None\<rparr>,
           \<lparr>type = ''city'', entity = ''rome'', start_index = 30, end_index = 33,
       additional_properties = None\<rparr>],
          [(''roomBooking'', PList [PDict [(''city'', PList [PStr ''pari''])]])])"
  by code_simp

lemma composite_example_output:
  "extract_entities_and_metadata example_builtins
     [\<lparr>type = ''roomBooking'', entity = ''book a room in paris'', start_index = 0,
       end_index = 19, additional_properties = None\<rparr>,
      \<lparr>type = ''city'', entity = ''pari'', start_index = 2, end_index = 5,
       additional_properties = None\<rparr>,
      \<lparr>type = ''city'', entity = ''rome'', start_index = 30, end_index = 33,
       additional_properties = None\<rparr>]
     (Some [\<lparr>parent_type = ''roomBooking'', composite_value = ''book a room in paris'',
      children = [\<lparr>child_type = ''city'', child_value = ''pari''\<rparr>]\<rparr>])
     False
   = Inr [(''roomBooking'', PList [PDict [(''city'', PList [PStr ''pari''])]]),
          (''city'', PList [PStr ''rome''])]"
  by code_simp

text \<open>
  Claim C3 says that an entity is grouped exactly when (a) no earlier child-type entry of
  the composite consumed it, (b) its type is the child type and (c) its span lies within
  the parent's, and that an entity of the child type outside the span reaches the flat
  pass under its own key. Three inputs on which the code does otherwise:
  \<^item> a \<^verbatim>\<open>builtin.number\<close> child inside the span whose resolution is no number: (a), (b) and
    (c) hold, the coercer's \<^verbatim>\<open>ValueError\<close> leaves the call, and nothing is grouped;
  \<^item> the spec's scenario with a second descriptor whose parent type is \<^verbatim>\<open>city\<close>: the city
    outside the span stays in the list, the flat pass skips it as a parent type, and the
    output has no key \<^verbatim>\<open>city\<close>;
  \<^item> two cities inside the span with the same attributes, their additional properties in
    another key order: they are equal, the second is found \<^verbatim>\<open>in covered_set\<close>, and one
    value is grouped.
\<close>

theorem populate_groups_children_counterexample:
  "populate_composite_entity_model example_builtins
     \<lparr>parent_type = ''roomBooking'', composite_value = ''book abc rooms'',
      children = [\<lparr>child_type = ''builtin.number'', child_value = ''abc''\<rparr>]\<rparr>
     [\<lparr>type = ''roomBooking'', entity = ''book abc rooms'', start_index = 0, end_index = 13,
       additional_properties = None\<rparr>,
      \<lparr>type = ''builtin.number'', entity = ''abc'', start_index = 5, end_index = 7,
       additional_properties = Some [(''resolution'', PDict [(''value'', PStr ''abc'')])]\<rparr>]
     [] False
   = Inl ValueError \<and>
   extract_entities_and_metadata example_builtins
     [\<lparr>type = ''roomBooking'', entity = ''book a room in paris'', start_index = 0,
       end_index = 19, additional_properties = None\<rparr>,
      \<lparr>type = ''city'', entity = ''pari'', start_index = 2, end_index = 5,
       additional_properties = None\<rparr>,
      \<lparr>type = ''city'', entity = ''rome'', start_index = 30, end_index = 33,
       additional_properties = None\<rparr>]
     (Some [\<lparr>parent_type = ''roomBooking'', composite_value = ''book a room in paris'',
      children = [\<lparr>child_type = ''city'', child_value = ''pari''\<rparr>]\<rparr>,
            \<lparr>parent_type = ''city'', composite_value = ''no such text'', children = []\<rparr>])
     False
   = Inr [(''roomBooking'', PList [PDict [(''city'', PList [PStr ''pari''])]])] \<and>
   populate_composite_entity_model example_builtins
     \<lparr>parent_type = ''roomBooking'', composite_value = ''book a room in paris'',
      children = [\<lparr>child_type = ''city'', child_value = ''pari''\<rparr>]\<rparr>
     [\<lparr>type = ''roomBooking'', entity = ''book a room in paris'', start_index = 0,
       end_index = 19, additional_properties = None\<rparr>,
      \<lparr>type = ''city'', entity = ''pari'', start_index = 2, end_index = 5,
       additional_properties = Some [(''score'', PInt 1), (''label'', PStr ''x'')]\<rparr>,
      \<lparr>type = ''city'', entity = ''pari'', start_index = 2, end_index = 5,
       additional_properties = Some [(''label'', PStr ''x''), (''score'', PInt 1)]\<rparr>]
     [] False
   = Inr ([\<lparr>type = ''roomBooking'', entity = ''book a room in paris'', start_index = 0,
       end_index = 19, additional_properties = None\<rparr>],
          [(''roomBooking'', PList [PDict [(''city'', PList [PStr ''pari''])]])])"
  by code_simp

text \<open>
  Claim C3, amended. When the parent entity of a composite descriptor is found and the call
  returns (no extraction raises):
  \<^item> every grouped entity is an entity of the working list with (b) a type that is one of the
    descriptor's child types and (c) a span within the parent's span: its start is not
    before the parent's start and its end is not after the parent's end;
  \<^item> every entity of the working list with (b) and (c) is grouped, or an entity equal to it
    is;
  \<^item> (a) no grouped entity is the same as, or equal to, one grouped before it, so each is
    grouped once, whatever the number of child-type entries naming its type; when no two
    entities of the list are equal, the grouped entities are exactly those with (b) and (c);
  \<^item> the child mapping has, under each normalized name, one value for each grouped entity of
    that name, and it is appended under the parent's normalized name;
  \<^item> the list returned is the working list without the entities with (b) and (c);
  \<^item> an entity whose span is not within the parent's span stays in the returned list, and
    any flat pass over that list and mapping that returns has its value under its
    normalized name, unless its type is in the set of parent types the pass skips.
\<close>

theorem populate_groups_children:
  assumes f: "find (\<lambda>e. type e = parent_type ce \<and> entity e = composite_value ce) entities = Some meta"
    and p: "populate_composite_entity_model B ce entities out verbose = Inr (rest, out')"
  shows "\<exists>covered ch name prev.
           set covered \<subseteq> {e \<in> set entities. is_child ce meta e} \<and>
           (\<forall>e\<in>set entities. is_child ce meta e \<longrightarrow> in_list B e covered) \<and>
           no_repeats_from B [] covered \<and> distinct covered \<and>
           ((\<forall>e\<in>set entities. \<forall>y\<in>set entities. entity_eq B y e \<longrightarrow> y = e) \<longrightarrow>
              set covered = {e \<in> set entities. is_child ce meta e}) \<and>
           (\<forall>k. (verbose \<longrightarrow> k \<noteq> ''$instance'') \<longrightarrow>
              map_of ch k = (if list_ex (named B k) covered
                             then Some (PList (values_under B k covered)) else None)) \<and>
           extract_normalized_entity_name B meta = Inr name \<and>
           map_of out' name = Some (PList (prev @ [PDict ch])) \<and>
           rest = filter (\<lambda>e. \<not> is_child ce meta e) entities \<and>
           (\<forall>e\<in>set entities.
              \<not> (start_index meta \<le> start_index e \<and> end_index e \<le> end_index meta) \<longrightarrow>
              e \<in> set rest \<and>
              (\<forall>T res. type e \<notin> T \<longrightarrow> flat_pass B verbose T rest out' = Inr res \<longrightarrow>
                 (\<exists>n x vs. extract_normalized_entity_name B e = Inr n \<and>
                    extract_entity_value B e = Inr x \<and>
                    map_of res n = Some (PList vs) \<and> x \<in> set vs)))"
proof -
  let ?init = "if verbose then [(''$instance'', PDict [])] else []"
  from populate_found [OF f p] obtain md cov ch name o1 where
    cc: "collect_children B verbose meta (children ce) entities ([], ?init) = Inr (cov, ch)"
    and name: "extract_normalized_entity_name B meta = Inr name"
    and a1: "add_property out name (PDict ch) = Inr o1"
    and a2: "(if verbose then add_metadata_property o1 name md else Inr o1) = Inr out'"
    and rest: "rest = filter (\<lambda>e. \<not> in_list B e cov) entities"
    by blast
  from collect_children_covers [OF cc]
  have sub: "set cov \<subseteq> {e \<in> set entities. is_child ce meta e}"
    and all: "\<forall>e\<in>set entities. is_child ce meta e \<longrightarrow> in_list B e cov"
    and nr: "no_repeats_from B [] cov"
    and fl: "flat_pass B verbose {} cov ?init = Inr ch"
    by (auto simp: is_child_contains)
  from no_repeats_distinct [OF nr] have d: "distinct cov" by simp
  have eq: "(\<forall>e\<in>set entities. \<forall>y\<in>set entities. entity_eq B y e \<longrightarrow> y = e) \<longrightarrow>
              set cov = {e \<in> set entities. is_child ce meta e}"
  proof
    assume u: "\<forall>e\<in>set entities. \<forall>y\<in>set entities. entity_eq B y e \<longrightarrow> y = e"
    show "set cov = {e \<in> set entities. is_child ce meta e}"
    proof
      show "set cov \<subseteq> {e \<in> set entities. is_child ce meta e}" by (rule sub)
    next
      show "{e \<in> set entities. is_child ce meta e} \<subseteq> set cov"
      proof
        fix e assume "e \<in> {e \<in> set entities. is_child ce meta e}"
        then have e: "e \<in> set entities" "is_child ce meta e" by simp_all
        with all have "in_list B e cov" by blast
        then obtain y where y: "y \<in> set cov" "y = e \<or> entity_eq B y e"
          by (auto simp: in_list_iff)
        with sub have "y \<in> set entities" by blast
        with u e(1) y(2) have "y = e" by blast
        with y(1) show "e \<in> set cov" by simp
      qed
    qed
  qed
  from flat_pass_accumulates [where B = B and v = verbose and es = cov] fl
  have "accumulated B verbose cov ch" by simp
  note vals = accumulated_values [OF this]
  from add_property_result [OF a1] obtain prev where o1: "map_of o1 name = Some (PList (prev @ [PDict ch]))"
    by blast
  have o': "map_of out' name = Some (PList (prev @ [PDict ch]))"
  proof (cases verbose)
    case True
    with a2 have "add_metadata_property o1 name md = Inr out'" by simp
    from add_metadata_property_keeps [OF this o1] show ?thesis .
  next
    case False
    with a2 o1 show ?thesis by simp
  qed
  have mem: "\<And>e. e \<in> set entities \<Longrightarrow> in_list B e cov \<longleftrightarrow> is_child ce meta e"
  proof -
    fix e assume e: "e \<in> set entities"
    show "in_list B e cov \<longleftrightarrow> is_child ce meta e"
    proof
      assume "in_list B e cov"
      then show "is_child ce meta e" using sub by (intro is_child_in_list [of B e cov]) auto
    next
      assume "is_child ce meta e"
      with all e show "in_list B e cov" by blast
    qed
  qed
  have r: "rest = filter (\<lambda>e. \<not> is_child ce meta e) entities"
    unfolding rest using mem by (intro filter_cong) auto
  have out: "\<forall>e\<in>set entities.
              \<not> (start_index meta \<le> start_index e \<and> end_index e \<le> end_index meta) \<longrightarrow>
              e \<in> set rest \<and>
              (\<forall>T res. type e \<notin> T \<longrightarrow> flat_pass B verbose T rest out' = Inr res \<longrightarrow>
                 (\<exists>n x vs. extract_normalized_entity_name B e = Inr n \<and>
                    extract_entity_value B e = Inr x \<and>
                    map_of res n = Some (PList vs) \<and> x \<in> set vs))"
  proof (intro ballI impI conjI allI)
    fix e assume e: "e \<in> set entities"
      and o: "\<not> (start_index meta \<le> start_index e \<and> end_index e \<le> end_index meta)"
    from o have "\<not> is_child ce meta e" by (simp add: is_child_def)
    with e show er: "e \<in> set rest" unfolding r by simp
    fix T res assume "type e \<notin> T" "flat_pass B verbose T rest out' = Inr res"
    from flat_pass_contains [OF this(2) er this(1)]
    show "\<exists>n x vs. extract_normalized_entity_name B e = Inr n \<and>
                    extract_entity_value B e = Inr x \<and>
                    map_of res n = Some (PList vs) \<and> x \<in> set vs" .
  qed
  from sub all nr d eq vals name o' r out show ?thesis by blast
qed

theorem populate_groups_children_witness:
  "populate_composite_entity_model example_builtins
     \<lparr>parent_type = ''roomBooking'', composite_value = ''book a room in paris'',
      children = [\<lparr>child_type = ''city'', child_value = ''pari''\<rparr>]\<rparr>
     [\<lparr>type = ''roomBooking'', entity = ''book a room in paris'', start_index = 0,
       end_index = 19, additional_properties = None\<rparr>,
      \<lparr>type = ''city'', entity = ''pari'', start_index = 2, end_index = 5,
       additional_properties = None\<rparr>,
      \<lparr>type = ''city'', entity = ''rome'', start_index = 30, end_index = 33,
       additional_properties = None\<rparr>]
     [] False
   = Inr ([\<lparr>type = ''roomBooking'', entity = ''book a room in paris'', start_index = 0,
       end_index = 19, additional_properties = None\<rparr>,
           \<lparr>type = ''city'', entity = ''rome'', start_index = 30, end_index = 33,
       additional_properties = None\<rparr>],
          [(''roomBooking'', PList [PDict [(''city'', PList [PStr ''pari''])]])]) \<and>
   extract_entities_and_metadata example_builtins
     [\<lparr>type = ''roomBooking'', entity = ''book a room in paris'', start_index = 0,
       end_index = 19, additional_properties = None\<rparr>,
      \<lparr>type = ''city'', entity = ''pari'', start_index = 2, end_index = 5,
       additional_properties = None\<rparr>,
      \<lparr>type = ''city'', entity = ''rome'', start_index = 30, end_index = 33,
       additional_properties = None\<rparr>]
     (Some [\<lparr>parent_type = ''roomBooking'', composite_value = ''book a room in paris'',
      children = [\<lparr>child_type = ''city'', child_value = ''pari''\<rparr>]\<rparr>])
     False
   = Inr [(''roomBooking'', PList [PDict [(''city'', PList [PStr ''pari''])]]),
          (''city'', PList [PStr ''rome''])]"
proof -
  have found:
    "find (\<lambda>e. type e = parent_type \<lparr>parent_type = ''roomBooking'', composite_value = ''book a room in paris'',
      children = [\<lparr>child_type = ''city'', child_value = ''pari''\<rparr>]\<rparr>
              \<and> entity e = composite_value \<lparr>parent_type = ''roomBooking'', composite_value = ''book a room in paris'',
      children = [\<lparr>child_type = ''city'', child_value = ''pari''\<rparr>]\<rparr>)
       [\<lparr>type = ''roomBooking'', entity = ''book a room in paris'', start_index = 0,
       end_index = 19, additional_properties = None\<rparr>,
      \<lparr>type = ''city'', entity = ''pari'', start_index = 2, end_index = 5,
       additional_properties = None\<rparr>,
      \<lparr>type = ''city'', entity = ''rome'', start_index = 30, end_index = 33,
       additional_properties = None\<rparr>]
     = Some (\<lparr>type = ''roomBooking'', entity = ''book a room in paris'', start_index = 0,
       end_index = 19, additional_properties = None\<rparr> :: string entity_model)"
    by simp
  from populate_groups_children [OF found composite_example]
  show ?thesis
    by (simp add: composite_example composite_example_output)
qed

section \<open>The parent types in the flat pass\<close>

lemma find_filter:
  assumes "\<forall>e\<in>set es. P e \<longrightarrow> Q e"
  shows "find P (filter Q es) = find P es"
  using assms by (induction es) auto

lemma collect_child_filter:
  assumes "\<forall>e\<in>set es. \<not> Q e \<longrightarrow> child_type c \<noteq> type e"
  shows "collect_child B v meta c (filter Q es) st = collect_child B v meta c es st"
  using assms
proof (induction es arbitrary: st)
  case Nil
  show ?case by simp
next
  case (Cons e es)
  obtain cov ch where st: "st = (cov, ch)" by (cases st)
  from Cons.prems have IH: "\<And>st. collect_child B v meta c (filter Q es) st = collect_child B v meta c es st"
    by (intro Cons.IH) simp
  show ?case
  proof (cases "Q e")
    case True
    then show ?thesis using IH by (simp add: st)
  next
    case False
    with Cons.prems have "child_type c \<noteq> type e" by simp
    then show ?thesis using False IH by (simp add: st)
  qed
qed

lemma collect_children_filter:
  assumes "\<forall>e\<in>set es. \<not> Q e \<longrightarrow> (\<forall>c\<in>set cs. child_type c \<noteq> type e)"
  shows "collect_children B v meta cs (filter Q es) st = collect_children B v meta cs es st"
  using assms
proof (induction cs arbitrary: st)
  case Nil
  show ?case by simp
next
  case (Cons c cs)
  have 1: "collect_child B v meta c (filter Q es) st = collect_child B v meta c es st"
    using Cons.prems by (intro collect_child_filter) simp
  have 2: "collect_children B v meta cs (filter Q es) = collect_children B v meta cs es"
    using Cons.prems by (intro ext Cons.IH) simp
  show ?case using 1 2 by simp
qed

lemma rbind_assoc: "rbind (rbind m f) g = rbind m (\<lambda>x. rbind (f x) g)"
  by (cases m) simp_all

lemma populate_filter:
  assumes "\<forall>e\<in>set es. \<not> Q e \<longrightarrow>
             \<not> (type e = parent_type ce \<and> entity e = composite_value ce) \<and>
             (\<forall>c\<in>set (children ce). child_type c \<noteq> type e)"
  shows "populate_composite_entity_model B ce (filter Q es) out v =
           rbind (populate_composite_entity_model B ce es out v)
             (\<lambda>r. Inr (filter Q (fst r), snd r))"
proof -
  let ?P = "\<lambda>e. type e = parent_type ce \<and> entity e = composite_value ce"
  have f: "find ?P (filter Q es) = find ?P es"
    using assms by (intro find_filter) blast
  have c: "\<And>meta st. collect_children B v meta (children ce) (filter Q es) st
                      = collect_children B v meta (children ce) es st"
    using assms by (intro collect_children_filter) blast
  show ?thesis
  proof (cases "find ?P es")
    case None
    with f show ?thesis by (simp add: populate_composite_entity_model_def)
  next
    case (Some meta)
    with f show ?thesis
      by (simp add: populate_composite_entity_model_def c Let_def rbind_assoc conj_commute)
  qed
qed

lemma populate_subset:
  assumes "populate_composite_entity_model B ce es out v = Inr (rest, out')"
  shows "set rest \<subseteq> set es"
  using assms
  by (auto simp: populate_composite_entity_model_def rbind_Inr_iff Let_def
      split: option.splits if_splits)

lemma populate_all_filter:
  assumes "\<forall>e\<in>set es. \<not> Q e \<longrightarrow>
             (\<forall>ce\<in>set ces. \<not> (type e = parent_type ce \<and> entity e = composite_value ce) \<and>
                            (\<forall>c\<in>set (children ce). child_type c \<noteq> type e))"
  shows "populate_all B v ces (filter Q es) out =
           rbind (populate_all B v ces es out) (\<lambda>r. Inr (filter Q (fst r), snd r))"
  using assms
proof (induction ces arbitrary: es out)
  case Nil
  show ?case by simp
next
  case (Cons ce ces)
  have p: "populate_composite_entity_model B ce (filter Q es) out v =
           rbind (populate_composite_entity_model B ce es out v)
             (\<lambda>r. Inr (filter Q (fst r), snd r))"
    using Cons.prems by (intro populate_filter) simp
  show ?case
  proof (cases "populate_composite_entity_model B ce es out v")
    case (Inl a)
    with p show ?thesis by simp
  next
    case (Inr r)
    obtain rest out1 where r: "r = (rest, out1)" by (cases r)
    from Inr r have "set rest \<subseteq> set es" by (auto dest: populate_subset)
    with Cons.prems have "\<forall>e\<in>set rest. \<not> Q e \<longrightarrow>
             (\<forall>ce\<in>set ces. \<not> (type e = parent_type ce \<and> entity e = composite_value ce) \<and>
                            (\<forall>c\<in>set (children ce). child_type c \<noteq> type e))"
      by auto
    from Cons.IH [OF this, of out1] p Inr r show ?thesis by simp
  qed
qed

lemma flat_pass_filter:
  assumes "\<forall>e\<in>set es. \<not> Q e \<longrightarrow> type e \<in> T"
  shows "flat_pass B v T (filter Q es) out = flat_pass B v T es out"
  using assms by (induction es arbitrary: out) (auto simp: rbind_def split: sum.splits)

lemma flat_pass_skips:
  "flat_pass B v T es out = flat_pass B v {} (filter (\<lambda>e. type e \<notin> T) es) out"
  by (induction es arbitrary: out) (auto simp: rbind_def split: sum.splits)


lemma extract_with_composites:
  assumes "ces \<noteq> []"
  shows "extract_entities_and_metadata B es (Some ces) verbose =
           rbind (populate_all B verbose ces es (if verbose then [(''$instance'', PDict [])] else []))
             (\<lambda>r. flat_pass B verbose (set (map parent_type ces)) (fst r) (snd r))"
  using assms by (simp add: extract_entities_and_metadata_def)

text \<open>
  A descriptor that does not resolve: its value is the text of no entity. The entity of
  its parent type is left in the list and is no one's child, and the output has no entry
  for it.
\<close>

lemma unresolved_example:
  "extract_entities_and_metadata example_builtins
     [\<lparr>type = ''roomBooking'', entity = ''a room in paris'', start_index = 0,
       end_index = 14, additional_properties = None\<rparr>,
      \<lparr>type = ''city'', entity = ''oslo'', start_index = 20, end_index = 23,
       additional_properties = None\<rparr>]
     (Some [\<lparr>parent_type = ''roomBooking'', composite_value = ''a room in rome'',
      children = [\<lparr>child_type = ''city'', child_value = ''rome''\<rparr>]\<rparr>])
     False
   = Inr [(''city'', PList [PStr ''oslo''])]"
  by code_simp

lemma unresolved_example_filter:
  "filter (\<lambda>e. \<not> unresolved_parent [\<lparr>parent_type = ''roomBooking'', composite_value = ''a room in rome'',
      children = [\<lparr>child_type = ''city'', child_value = ''rome''\<rparr>]\<rparr>] e)
     [\<lparr>type = ''roomBooking'', entity = ''a room in paris'', start_index = 0,
       end_index = 14, additional_properties = None\<rparr>,
      \<lparr>type = ''city'', entity = ''oslo'', start_index = 20, end_index = 23,
       additional_properties = None\<rparr> :: string entity_model]
   = [\<lparr>type = ''city'', entity = ''oslo'', start_index = 20, end_index = 23,
       additional_properties = None\<rparr>]"
  by (simp add: unresolved_parent_def)

text \<open>
  Claim C4. With a non-empty descriptor list, the set of parent types is that of all the
  descriptors, and the output is what the flat pass (skipping nothing) makes of the list
  left by the composites once every entity whose type is in that set is removed from it.
  In particular an unresolved parent (an entity whose type is a descriptor's parent type,
  to which no descriptor resolves and which is never a child) adds nothing: removing such
  entities from the input leaves the result unchanged.
\<close>

theorem parent_types_excluded:
  assumes "ces \<noteq> []"
  shows "extract_entities_and_metadata B es (Some ces) verbose =
           rbind (populate_all B verbose ces es (if verbose then [(''$instance'', PDict [])] else []))
             (\<lambda>r. flat_pass B verbose {}
                    (filter (\<lambda>e. type e \<notin> set (map parent_type ces)) (fst r)) (snd r)) \<and>
         extract_entities_and_metadata B (filter (\<lambda>e. \<not> unresolved_parent ces e) es) (Some ces) verbose
           = extract_entities_and_metadata B es (Some ces) verbose"
proof
  show "extract_entities_and_metadata B es (Some ces) verbose =
           rbind (populate_all B verbose ces es (if verbose then [(''$instance'', PDict [])] else []))
             (\<lambda>r. flat_pass B verbose {}
                    (filter (\<lambda>e. type e \<notin> set (map parent_type ces)) (fst r)) (snd r))"
    unfolding extract_with_composites [OF assms]
    using flat_pass_skips [of B verbose "set (map parent_type ces)"] by simp
next
  let ?Q = "\<lambda>e. \<not> unresolved_parent ces e"
  let ?T = "set (map parent_type ces)"
  let ?init = "if verbose then [(''$instance'', PDict [])] else []"
  have p: "populate_all B verbose ces (filter ?Q es) ?init =
           rbind (populate_all B verbose ces es ?init) (\<lambda>r. Inr (filter ?Q (fst r), snd r))"
    by (intro populate_all_filter) (auto simp: unresolved_parent_def list_all_iff)
  have fl: "\<And>v xs out. flat_pass B v (parent_type ` set ces) (filter ?Q xs) out
                          = flat_pass B v (parent_type ` set ces) xs out"
    by (intro flat_pass_filter) (auto simp: unresolved_parent_def)
  show "extract_entities_and_metadata B (filter ?Q es) (Some ces) verbose
           = extract_entities_and_metadata B es (Some ces) verbose"
    unfolding extract_with_composites [OF assms] p
    by (simp add: rbind_assoc fl)
qed

theorem parent_types_excluded_witness:
  "extract_entities_and_metadata example_builtins
     [\<lparr>type = ''roomBooking'', entity = ''a room in paris'', start_index = 0,
       end_index = 14, additional_properties = None\<rparr>,
      \<lparr>type = ''city'', entity = ''oslo'', start_index = 20, end_index = 23,
       additional_properties = None\<rparr>]
     (Some [\<lparr>parent_type = ''roomBooking'', composite_value = ''a room in rome'',
      children = [\<lparr>child_type = ''city'', child_value = ''rome''\<rparr>]\<rparr>])
     False
   = Inr [(''city'', PList [PStr ''oslo''])] \<and>
   extract_entities_and_metadata example_builtins
     [\<lparr>type = ''city'', entity = ''oslo'', start_index = 20, end_index = 23,
       additional_properties = None\<rparr>]
     (Some [\<lparr>parent_type = ''roomBooking'', composite_value = ''a room in rome'',
      children = [\<lparr>child_type = ''city'', child_value = ''rome''\<rparr>]\<rparr>])
     False
   = Inr [(''city'', PList [PStr ''oslo''])]"
proof -
  have ne: "[\<lparr>parent_type = ''roomBooking'', composite_value = ''a room in rome'',
      children = [\<lparr>child_type = ''city'', child_value = ''rome''\<rparr>]\<rparr>] \<noteq> []"
    by simp
  from parent_types_excluded
    [OF ne, where B = example_builtins and verbose = False
       and es = "[\<lparr>type = ''roomBooking'', entity = ''a room in paris'', start_index = 0,
       end_index = 14, additional_properties = None\<rparr>,
      \<lparr>type = ''city'', entity = ''oslo'', start_index = 20, end_index = 23,
       additional_properties = None\<rparr>]"]
  have "extract_entities_and_metadata example_builtins
          (filter (\<lambda>e. \<not> unresolved_parent [\<lparr>parent_type = ''roomBooking'', composite_value = ''a room in rome'',
      children = [\<lparr>child_type = ''city'', child_value = ''rome''\<rparr>]\<rparr>] e)
             [\<lparr>type = ''roomBooking'', entity = ''a room in paris'', start_index = 0,
       end_index = 14, additional_properties = None\<rparr>,
              \<lparr>type = ''city'', entity = ''oslo'', start_index = 20, end_index = 23,
       additional_properties = None\<rparr>])
          (Some [\<lparr>parent_type = ''roomBooking'', composite_value = ''a room in rome'',
      children = [\<lparr>child_type = ''city'', child_value = ''rome''\<rparr>]\<rparr>]) False
        = extract_entities_and_metadata example_builtins
          [\<lparr>type = ''roomBooking'', entity = ''a room in paris'', start_index = 0,
       end_index = 14, additional_properties = None\<rparr>,
           \<lparr>type = ''city'', entity = ''oslo'', start_index = 20, end_index = 23,
       additional_properties = None\<rparr>]
          (Some [\<lparr>parent_type = ''roomBooking'', composite_value = ''a room in rome'',
      children = [\<lparr>child_type = ''city'', child_value = ''rome''\<rparr>]\<rparr>]) False"
    by (rule conjunct2)
  then show ?thesis
    by (simp only: unresolved_example unresolved_example_filter)
qed

end
